theory Spec2Isabelle
  imports
    Complex_Main
    "HOL-Library.AList"
    "HOL-Library.Char_ord"
    "HOL-Library.List_Lexorder"
    "HOL-Library.Product_Lexorder"
begin

section \<open>Data model of \<open>LocalCollection\<close>\<close>

text \<open>
  The embedding follows \<^verbatim>\<open>qdrant_client/local/local_collection.py\<close>. Python exceptions are
  values of \<open>error\<close>; a method that may raise returns \<open>error + 'a\<close>, and a method that
  mutates the collection before it may raise returns the collection it leaves behind together
  with the optional error. Floats are modelled by \<open>real\<close>, Python's unbounded integers by
  \<open>int\<close>, a Python \<open>dict\<close> by an association list in insertion order (\<open>AList.update\<close>
  overwrites in place or appends, as \<^verbatim>\<open>d[k] = v\<close> does). Method names lose their leading
  underscore. The model covers the in-memory collection (\<^verbatim>\<open>location = None\<close>, so
  \<^verbatim>\<open>self.storage is None\<close>).
\<close>

datatype error = ValueError | KeyError | IndexError | AssertionError | TypeError

datatype point_id = IntId int | StrId string

datatype json = JNull | JBool bool | JNum real | JStr string
  | JArr "json list" | JObj "(string \<times> json) list"

type_synonym payload_t = "(string \<times> json) list"

type_synonym vec = "real list"

text \<open>A two-dimensional \<^verbatim>\<open>np.ndarray\<close>: \<open>mcols\<close> is \<^verbatim>\<open>shape[1]\<close>, \<open>mrows\<close> the rows.\<close>

record matrix =
  mcols :: nat
  mrows :: "vec list"

datatype distance = Cosine | Euclid | Dot

record vector_params =
  vp_size :: nat
  vp_distance :: distance

datatype vectors_config =
    SingleVectorParams vector_params
  | NamedVectorParams "(string \<times> vector_params) list"

record collection =
  vectors :: "(string \<times> matrix) list"
  payload :: "payload_t option list"
  deleted :: "bool list"
  ids :: "(point_id \<times> nat) list"
  ids_inv :: "point_id list"
  config :: vectors_config

definition DEFAULT_VECTOR_NAME :: string where
  "DEFAULT_VECTOR_NAME = []"

datatype with_payload =
    WithPayloadBool bool
  | WithPayloadList "string list"
  | PayloadSelectorInclude "string list"
  | PayloadSelectorExclude "string list"

datatype with_vectors = WithVectorsBool bool | WithVectorsList "string list"

datatype vector_struct = BareVector vec | NamedVectors "(string \<times> vec) list"

record point_record =
  rec_id :: point_id
  rec_payload :: "payload_t option"
  rec_vector :: "vector_struct option"

record scored_point =
  sp_id :: point_id
  sp_score :: real
  sp_version :: int
  sp_payload :: "payload_t option"
  sp_vector :: "vector_struct option"

section \<open>Indexing helpers\<close>

text \<open>\<^verbatim>\<open>xs[i]\<close> for a non-negative index: \<^verbatim>\<open>IndexError\<close> out of range.\<close>

definition index_list :: "'a list \<Rightarrow> nat \<Rightarrow> error + 'a" where
  "index_list xs i = (if i < length xs then Inr (xs ! i) else Inl IndexError)"

text \<open>\<^verbatim>\<open>d[k]\<close> on a dict: \<^verbatim>\<open>KeyError\<close> when the key is absent.\<close>

definition dict_get :: "('k \<times> 'v) list \<Rightarrow> 'k \<Rightarrow> error + 'v" where
  "dict_get d k = (case map_of d k of None \<Rightarrow> Inl KeyError | Some v \<Rightarrow> Inr v)"

section \<open>Projections: \<open>_get_payload\<close> and \<open>_get_vectors\<close>\<close>

text \<open>
  \<^verbatim>\<open>{key: payload.get(key) for key in keys if key in payload}\<close>: the keys are walked in
  order, an absent key is dropped, a repeated key overwrites its own entry.
\<close>

fun project_keys :: "payload_t \<Rightarrow> string list \<Rightarrow> payload_t \<Rightarrow> payload_t" where
  "project_keys d [] acc = acc"
| "project_keys d (k # ks) acc =
     (case map_of d k of
        None \<Rightarrow> project_keys d ks acc
      | Some v \<Rightarrow> project_keys d ks (AList.update k v acc))"

text \<open>
  \<open>_get_payload\<close>. The stored payload is read first (\<^verbatim>\<open>IndexError\<close> out of range). A
  falsy projection (\<^verbatim>\<open>False\<close>, the empty list) gives \<^verbatim>\<open>None\<close>; \<^verbatim>\<open>True\<close> gives the stored
  payload as it is, \<^verbatim>\<open>None\<close> included. The list and include comprehensions evaluate
  \<^verbatim>\<open>key in payload\<close> for their first key, and the exclude comprehension iterates the
  payload, so each raises \<^verbatim>\<open>TypeError\<close> on a stored \<^verbatim>\<open>None\<close>; an include selector with no
  keys never touches the payload.
\<close>

definition get_payload :: "collection \<Rightarrow> nat \<Rightarrow> with_payload \<Rightarrow> error + payload_t option" where
  "get_payload c idx wp =
     (case index_list (payload c) idx of
        Inl e \<Rightarrow> Inl e
      | Inr p \<Rightarrow>
          (case wp of
             WithPayloadBool b \<Rightarrow> (if b then Inr p else Inr None)
           | WithPayloadList keys \<Rightarrow>
               (if keys = [] then Inr None
                else (case p of
                        None \<Rightarrow> Inl TypeError
                      | Some d \<Rightarrow> Inr (Some (project_keys d keys []))))
           | PayloadSelectorInclude keys \<Rightarrow>
               (if keys = [] then Inr (Some [])
                else (case p of
                        None \<Rightarrow> Inl TypeError
                      | Some d \<Rightarrow> Inr (Some (project_keys d keys []))))
           | PayloadSelectorExclude keys \<Rightarrow>
               (case p of
                  None \<Rightarrow> Inl TypeError
                | Some d \<Rightarrow> Inr (Some (filter (\<lambda>kv. fst kv \<notin> set keys) d)))))"

text \<open>
  \<^verbatim>\<open>{name: self.vectors[name][idx].tolist() for name in self.vectors}\<close>: every matrix is
  read at \<open>idx\<close>, in dict order; the first row out of range raises \<^verbatim>\<open>IndexError\<close>.
\<close>

fun all_rows_at :: "(string \<times> matrix) list \<Rightarrow> nat \<Rightarrow> error + (string \<times> vec) list" where
  "all_rows_at [] idx = Inr []"
| "all_rows_at (nm # rest) idx =
     (case index_list (mrows (snd nm)) idx of
        Inl e \<Rightarrow> Inl e
      | Inr row \<Rightarrow>
          (case all_rows_at rest idx of
             Inl e \<Rightarrow> Inl e
           | Inr d \<Rightarrow> Inr ((fst nm, row) # d)))"

text \<open>
  \<^verbatim>\<open>{name: vectors[name] for name in with_vectors}\<close>: \<^verbatim>\<open>KeyError\<close> on a name that is not
  a key; a repeated name overwrites its own entry.
\<close>

fun select_names ::
  "(string \<times> vec) list \<Rightarrow> string list \<Rightarrow> (string \<times> vec) list \<Rightarrow> error + (string \<times> vec) list"
where
  "select_names d [] acc = Inr acc"
| "select_names d (n # ns) acc =
     (case map_of d n of
        None \<Rightarrow> Inl KeyError
      | Some v \<Rightarrow> select_names d ns (AList.update n v acc))"

text \<open>Python truthiness of the \<open>with_vectors\<close> argument.\<close>

fun truthy_with_vectors :: "with_vectors \<Rightarrow> bool" where
  "truthy_with_vectors (WithVectorsBool b) = b"
| "truthy_with_vectors (WithVectorsList ns) = (ns \<noteq> [])"

text \<open>
  \<open>_get_vectors\<close>. The unwrap test (\<^verbatim>\<open>len(vectors) == 1 and DEFAULT_VECTOR_NAME in vectors\<close>)
  runs on the dict that is left after the restriction to a list of names.
\<close>

definition unwrap_default :: "(string \<times> vec) list \<Rightarrow> vector_struct" where
  "unwrap_default vs =
     (case (length vs = 1, map_of vs DEFAULT_VECTOR_NAME) of
        (True, Some v) \<Rightarrow> BareVector v
      | _ \<Rightarrow> NamedVectors vs)"

definition get_vectors :: "collection \<Rightarrow> nat \<Rightarrow> with_vectors \<Rightarrow> error + vector_struct option" where
  "get_vectors c idx wv =
     (if \<not> truthy_with_vectors wv then Inr None
      else
        (case all_rows_at (vectors c) idx of
           Inl e \<Rightarrow> Inl e
         | Inr vs \<Rightarrow>
             (case (case wv of
                      WithVectorsList ns \<Rightarrow> select_names vs ns []
                    | WithVectorsBool b \<Rightarrow> Inr vs) of
                Inl e \<Rightarrow> Inl e
              | Inr vs' \<Rightarrow> Inr (Some (unwrap_default vs')))))"


section \<open>External collaborators\<close>

text \<open>
  \<^verbatim>\<open>calculate_payload_mask\<close>, \<^verbatim>\<open>calculate_distance\<close> and Python's \<^verbatim>\<open>uuid.UUID\<close> are not part
  of this module. They are parameters of the model: \<open>calc_mask\<close> maps the payloads, the
  optional filter and the id list to the acceptance mask, \<open>calc_dist\<close> maps the query, the
  matrix rows and the metric to the scores (or raises), \<open>is_uuid\<close> tells whether a string
  parses as a UUID.
\<close>

datatype condition = HasIdCondition "point_id list" | OtherCondition string

record filter_t =
  must :: "condition list option"
  should :: "condition list option"
  must_not :: "condition list option"

type_synonym mask_fn = "payload_t option list \<Rightarrow> filter_t option \<Rightarrow> point_id list \<Rightarrow> bool list"

type_synonym dist_fn = "vec \<Rightarrow> vec list \<Rightarrow> distance \<Rightarrow> error + real list"

datatype distance_order = BIGGER_IS_BETTER | SMALLER_IS_BETTER

text \<open>
  Modelled from the spec: \<^verbatim>\<open>distance_to_order\<close> lives in \<^verbatim>\<open>qdrant_client.local.distances\<close>,
  which is not among the sources. The spec gives the direction mapping: bigger-is-better
  for Cosine and Dot, smaller-is-better for Euclid.
\<close>

fun distance_to_order :: "distance \<Rightarrow> distance_order" where
  "distance_to_order Cosine = BIGGER_IS_BETTER"
| "distance_to_order Dot = BIGGER_IS_BETTER"
| "distance_to_order Euclid = SMALLER_IS_BETTER"

section \<open>numpy and Python primitives\<close>

text \<open>
  An elementwise binary operation on two one-dimensional arrays, with numpy's broadcasting:
  equal lengths, or one operand of length one, else \<^verbatim>\<open>ValueError\<close>.
\<close>

definition np_binop :: "('a \<Rightarrow> 'b \<Rightarrow> 'c) \<Rightarrow> 'a list \<Rightarrow> 'b list \<Rightarrow> error + 'c list" where
  "np_binop f a b =
     (if length a = length b then Inr (map2 f a b)
      else if length a = 1 then Inr (map (f (hd a)) b)
      else if length b = 1 then Inr (map (\<lambda>x. f x (hd b)) a)
      else Inl ValueError)"

text \<open>\<^verbatim>\<open>payload_mask & ~self.deleted\<close>.\<close>

definition combine_mask :: "bool list \<Rightarrow> bool list \<Rightarrow> error + bool list" where
  "combine_mask payload_mask del = np_binop (\<lambda>p d. p \<and> d) payload_mask (map Not del)"

text \<open>
  \<^verbatim>\<open>np.argsort(scores)\<close>: the indices in ascending order of score. numpy's default sort does
  not promise an order among equal scores; the model takes the stable one.
\<close>

definition argsort :: "real list \<Rightarrow> nat list" where
  "argsort scores = sort_key (\<lambda>i. scores ! i) [0..<length scores]"

text \<open>Python slices \<^verbatim>\<open>xs[k:]\<close> and \<^verbatim>\<open>xs[:k]\<close>, and \<^verbatim>\<open>xs[k]\<close>, for any integer \<open>k\<close>.\<close>

definition slice_start :: "'a list \<Rightarrow> int \<Rightarrow> nat" where
  "slice_start xs k = (if 0 \<le> k then nat k else nat (int (length xs) + k))"

definition slice_from :: "'a list \<Rightarrow> int \<Rightarrow> 'a list" where
  "slice_from xs k = drop (slice_start xs k) xs"

definition slice_to :: "'a list \<Rightarrow> int \<Rightarrow> 'a list" where
  "slice_to xs k = take (slice_start xs k) xs"

definition py_index :: "'a list \<Rightarrow> int \<Rightarrow> error + 'a" where
  "py_index xs k =
     (if 0 \<le> k then index_list xs (nat k)
      else if - int (length xs) \<le> k then index_list xs (nat (int (length xs) + k))
      else Inl IndexError)"

text \<open>
  \<^verbatim>\<open>np.stack(vs)\<close> followed by \<^verbatim>\<open>np.mean(..., axis=0)\<close>: the rows must have one shape
  (\<^verbatim>\<open>ValueError\<close> otherwise, and on no rows at all); the mean is taken per column.
\<close>

definition stack_mean :: "vec list \<Rightarrow> error + vec" where
  "stack_mean vs =
     (case vs of
        [] \<Rightarrow> Inl ValueError
      | v # rest \<Rightarrow>
          (if list_all (\<lambda>w. length w = length v) rest
           then Inr (map (\<lambda>j. (\<Sum>w\<leftarrow>vs. w ! j) / real (length vs)) [0..<length v])
           else Inl ValueError))"

text \<open>
  \<^verbatim>\<open>a[idx] = v\<close> on a matrix: \<^verbatim>\<open>IndexError\<close> when the row does not exist; the value is
  broadcast to the row (a value of length one fills the row), \<^verbatim>\<open>ValueError\<close> when its
  length is neither the row's nor one.
\<close>

definition set_row :: "matrix \<Rightarrow> nat \<Rightarrow> vec \<Rightarrow> error + matrix" where
  "set_row m idx v =
     (if length (mrows m) \<le> idx then Inl IndexError
      else if length v = mcols m then Inr (m\<lparr>mrows := (mrows m)[idx := v]\<rparr>)
      else if length v = 1 then Inr (m\<lparr>mrows := (mrows m)[idx := replicate (mcols m) (hd v)]\<rparr>)
      else Inl ValueError)"

text \<open>
  \<^verbatim>\<open>np.resize(a, (n, a.shape[1]))\<close>: a new array of \<open>n\<close> rows holding repeated copies of
  the old rows; all zeros when the old array or the new one has no element.
\<close>

definition np_resize :: "matrix \<Rightarrow> nat \<Rightarrow> matrix" where
  "np_resize m n =
     (if mrows m = [] \<or> mcols m = 0 \<or> n = 0
      then m\<lparr>mrows := replicate n (replicate (mcols m) 0)\<rparr>
      else m\<lparr>mrows := take n (concat (replicate n (mrows m)))\<rparr>)"

section \<open>Construction\<close>

text \<open>\<open>__init__\<close> with \<^verbatim>\<open>location = None\<close>: one empty matrix per configured name.\<close>

definition config_items :: "vectors_config \<Rightarrow> (string \<times> vector_params) list" where
  "config_items cfg =
     (case cfg of
        SingleVectorParams p \<Rightarrow> [(DEFAULT_VECTOR_NAME, p)]
      | NamedVectorParams d \<Rightarrow> d)"

definition init_collection :: "vectors_config \<Rightarrow> collection" where
  "init_collection cfg =
     \<lparr> vectors = fold (\<lambda>np acc. AList.update (fst np) \<lparr>mcols = vp_size (snd np), mrows = []\<rparr> acc)
                    (config_items cfg) [],
       payload = [], deleted = [], ids = [], ids_inv = [], config = cfg \<rparr>"

datatype query_vector =
    QueryTuple string vec
  | QueryNamedVector string vec
  | QueryArray vec
  | QueryList vec

fun resolve_vector_name :: "query_vector \<Rightarrow> string \<times> vec" where
  "resolve_vector_name (QueryTuple name v) = (name, v)"
| "resolve_vector_name (QueryNamedVector name v) = (name, v)"
| "resolve_vector_name (QueryArray v) = (DEFAULT_VECTOR_NAME, v)"
| "resolve_vector_name (QueryList v) = (DEFAULT_VECTOR_NAME, v)"

definition get_vector_params :: "collection \<Rightarrow> string \<Rightarrow> error + vector_params" where
  "get_vector_params c name =
     (case config c of
        NamedVectorParams d \<Rightarrow>
          (case map_of d name of None \<Rightarrow> Inl ValueError | Some p \<Rightarrow> Inr p)
      | SingleVectorParams p \<Rightarrow>
          (if name \<noteq> DEFAULT_VECTOR_NAME then Inl ValueError else Inr p))"


section \<open>Read paths: \<open>search\<close>, \<open>retrieve\<close>, \<open>scroll\<close>\<close>

text \<open>
  Whether the walk of \<open>search\<close> stops at a score: below the threshold when bigger is
  better, above it otherwise; never without a threshold.
\<close>

definition crosses_threshold :: "distance_order \<Rightarrow> real option \<Rightarrow> real \<Rightarrow> bool" where
  "crosses_threshold required_order score_threshold score =
     (case score_threshold of
        None \<Rightarrow> False
      | Some t \<Rightarrow> (if required_order = BIGGER_IS_BETTER then score < t else score > t))"

text \<open>
  The \<^verbatim>\<open>for idx in order\<close> loop of \<open>search\<close>, with \<open>result\<close> as accumulator. Each
  \<^verbatim>\<open>break\<close> returns the accumulator, each \<^verbatim>\<open>continue\<close> goes on with the rest.
\<close>

fun search_walk ::
  "collection \<Rightarrow> bool list \<Rightarrow> real list \<Rightarrow> distance_order \<Rightarrow> int \<Rightarrow> int \<Rightarrow> with_payload \<Rightarrow>
   with_vectors \<Rightarrow> real option \<Rightarrow> nat list \<Rightarrow> scored_point list \<Rightarrow> error + scored_point list"
where
  "search_walk c msk scores ro limit offset wp wv thr [] result = Inr result"
| "search_walk c msk scores ro limit offset wp wv thr (idx # order) result =
     (if limit + offset \<le> int (length result) then Inr result
      else
        (case index_list msk idx of
           Inl e \<Rightarrow> Inl e
         | Inr ok \<Rightarrow>
             (if \<not> ok then search_walk c msk scores ro limit offset wp wv thr order result
              else
                (case index_list scores idx of
                   Inl e \<Rightarrow> Inl e
                 | Inr score \<Rightarrow>
                     (case index_list (ids_inv c) idx of
                        Inl e \<Rightarrow> Inl e
                      | Inr point_id \<Rightarrow>
                          (if crosses_threshold ro thr score then Inr result
                           else
                             (case get_payload c idx wp of
                                Inl e \<Rightarrow> Inl e
                              | Inr p \<Rightarrow>
                                  (case get_vectors c idx wv of
                                     Inl e \<Rightarrow> Inl e
                                   | Inr v \<Rightarrow>
                                       search_walk c msk scores ro limit offset wp wv thr order
                                         (result @ [\<lparr>sp_id = point_id, sp_score = score,
                                                     sp_version = 0, sp_payload = p,
                                                     sp_vector = v\<rparr>])))))))))"

definition search_order :: "distance_order \<Rightarrow> real list \<Rightarrow> nat list" where
  "search_order ro scores =
     (if ro = BIGGER_IS_BETTER then rev (argsort scores) else argsort scores)"

definition search ::
  "mask_fn \<Rightarrow> dist_fn \<Rightarrow> collection \<Rightarrow> query_vector \<Rightarrow> filter_t option \<Rightarrow> int \<Rightarrow> int \<Rightarrow>
   with_payload \<Rightarrow> with_vectors \<Rightarrow> real option \<Rightarrow> error + scored_point list"
where
  "search calc_mask calc_dist c qv query_filter limit offset wp wv thr =
     (let payload_mask = calc_mask (payload c) query_filter (ids_inv c);
          name = fst (resolve_vector_name qv);
          vector = snd (resolve_vector_name qv)
      in case map_of (vectors c) name of
           None \<Rightarrow> Inl ValueError
         | Some m \<Rightarrow>
             (case get_vector_params c name of
                Inl e \<Rightarrow> Inl e
              | Inr params \<Rightarrow>
                  (case calc_dist vector (take (length (payload c)) (mrows m)) (vp_distance params) of
                     Inl e \<Rightarrow> Inl e
                   | Inr scores \<Rightarrow>
                       (case combine_mask payload_mask (deleted c) of
                          Inl e \<Rightarrow> Inl e
                        | Inr msk \<Rightarrow>
                            (case search_walk c msk scores (distance_to_order (vp_distance params))
                                    limit offset wp wv thr
                                    (search_order (distance_to_order (vp_distance params)) scores) [] of
                               Inl e \<Rightarrow> Inl e
                             | Inr result \<Rightarrow> Inr (slice_from result offset))))))"

text \<open>The loop of \<open>retrieve\<close>: an unknown id is skipped, a tombstone is not looked at.\<close>

fun retrieve_loop ::
  "collection \<Rightarrow> with_payload \<Rightarrow> with_vectors \<Rightarrow> point_id list \<Rightarrow> point_record list \<Rightarrow>
   error + point_record list"
where
  "retrieve_loop c wp wv [] result = Inr result"
| "retrieve_loop c wp wv (point_id # rest) result =
     (case map_of (ids c) point_id of
        None \<Rightarrow> retrieve_loop c wp wv rest result
      | Some idx \<Rightarrow>
          (case get_payload c idx wp of
             Inl e \<Rightarrow> Inl e
           | Inr p \<Rightarrow>
               (case get_vectors c idx wv of
                  Inl e \<Rightarrow> Inl e
                | Inr v \<Rightarrow>
                    retrieve_loop c wp wv rest
                      (result @ [\<lparr>rec_id = point_id, rec_payload = p, rec_vector = v\<rparr>]))))"

definition retrieve ::
  "collection \<Rightarrow> point_id list \<Rightarrow> with_payload \<Rightarrow> with_vectors \<Rightarrow> error + point_record list"
where
  "retrieve c point_ids wp wv = retrieve_loop c wp wv point_ids []"

fun universal_id :: "point_id \<Rightarrow> string \<times> int" where
  "universal_id (StrId s) = (s, 0)"
| "universal_id (IntId n) = ([], n)"

text \<open>\<^verbatim>\<open>offset is not None and self._universal_id(point_id) < self._universal_id(offset)\<close>.\<close>

definition before_offset :: "point_id option \<Rightarrow> point_id \<Rightarrow> bool" where
  "before_offset offset point_id =
     (case offset of None \<Rightarrow> False | Some off \<Rightarrow> universal_id point_id < universal_id off)"

text \<open>The \<^verbatim>\<open>for point_id, idx in sorted_ids\<close> loop of \<open>scroll\<close>.\<close>

fun scroll_loop ::
  "collection \<Rightarrow> bool list \<Rightarrow> int \<Rightarrow> point_id option \<Rightarrow> with_payload \<Rightarrow> with_vectors \<Rightarrow>
   (point_id \<times> nat) list \<Rightarrow> point_record list \<Rightarrow> error + point_record list"
where
  "scroll_loop c msk limit offset wp wv [] result = Inr result"
| "scroll_loop c msk limit offset wp wv (item # rest) result =
     (if before_offset offset (fst item) then scroll_loop c msk limit offset wp wv rest result
      else if limit + 1 \<le> int (length result) then Inr result
      else
        (case index_list msk (snd item) of
           Inl e \<Rightarrow> Inl e
         | Inr ok \<Rightarrow>
             (if \<not> ok then scroll_loop c msk limit offset wp wv rest result
              else
                (case get_payload c (snd item) wp of
                   Inl e \<Rightarrow> Inl e
                 | Inr p \<Rightarrow>
                     (case get_vectors c (snd item) wv of
                        Inl e \<Rightarrow> Inl e
                      | Inr v \<Rightarrow>
                          scroll_loop c msk limit offset wp wv rest
                            (result @ [\<lparr>rec_id = fst item, rec_payload = p, rec_vector = v\<rparr>]))))))"

text \<open>\<^verbatim>\<open>sorted(self.ids.items(), key=lambda x: self._universal_id(x[0]))\<close>, a stable sort.\<close>

definition sorted_ids :: "collection \<Rightarrow> (point_id \<times> nat) list" where
  "sorted_ids c = sort_key (\<lambda>x. universal_id (fst x)) (ids c)"

definition scroll ::
  "mask_fn \<Rightarrow> collection \<Rightarrow> filter_t option \<Rightarrow> int \<Rightarrow> point_id option \<Rightarrow> with_payload \<Rightarrow>
   with_vectors \<Rightarrow> error + (point_record list \<times> point_id option)"
where
  "scroll calc_mask c scroll_filter limit offset wp wv =
     (if length (ids c) = 0 then Inr ([], None)
      else
        (case combine_mask (calc_mask (payload c) scroll_filter (ids_inv c)) (deleted c) of
           Inl e \<Rightarrow> Inl e
         | Inr msk \<Rightarrow>
             (case scroll_loop c msk limit offset wp wv (sorted_ids c) [] of
                Inl e \<Rightarrow> Inl e
              | Inr result \<Rightarrow>
                  (if limit < int (length result)
                   then (case py_index result limit of
                           Inl e \<Rightarrow> Inl e
                         | Inr r \<Rightarrow> Inr (slice_to result limit, Some (rec_id r)))
                   else Inr (result, None)))))"


section \<open>\<open>recommend\<close>\<close>

text \<open>
  The two example loops of \<open>recommend\<close>: an id that the lookup collection does not know
  raises \<^verbatim>\<open>ValueError\<close>; the row is read from \<^verbatim>\<open>collection.vectors[vector_name][idx]\<close>.
\<close>

fun gather_vectors :: "collection \<Rightarrow> string \<Rightarrow> point_id list \<Rightarrow> error + vec list" where
  "gather_vectors c vector_name [] = Inr []"
| "gather_vectors c vector_name (point_id # rest) =
     (case map_of (ids c) point_id of
        None \<Rightarrow> Inl ValueError
      | Some idx \<Rightarrow>
          (case dict_get (vectors c) vector_name of
             Inl e \<Rightarrow> Inl e
           | Inr m \<Rightarrow>
               (case index_list (mrows m) idx of
                  Inl e \<Rightarrow> Inl e
                | Inr row \<Rightarrow>
                    (case gather_vectors c vector_name rest of
                       Inl e \<Rightarrow> Inl e
                     | Inr vs \<Rightarrow> Inr (row # vs)))))"

text \<open>
  The query vector: \<^verbatim>\<open>mean_positive_vector + mean_positive_vector - np.mean(negative)\<close>
  when there is a negative example, the positive mean otherwise.
\<close>

definition recommend_vector :: "vec list \<Rightarrow> vec list \<Rightarrow> error + vec" where
  "recommend_vector positive_vectors negative_vectors =
     (case stack_mean positive_vectors of
        Inl e \<Rightarrow> Inl e
      | Inr mean_positive \<Rightarrow>
          (if negative_vectors = [] then Inr mean_positive
           else
             (case np_binop (+) mean_positive mean_positive of
                Inl e \<Rightarrow> Inl e
              | Inr twice \<Rightarrow>
                  (case stack_mean negative_vectors of
                     Inl e \<Rightarrow> Inl e
                   | Inr mean_negative \<Rightarrow> np_binop (-) twice mean_negative))))"

text \<open>\<^verbatim>\<open>negative or []\<close> and \<^verbatim>\<open>list(negative) if negative else []\<close>.\<close>

definition negative_list :: "point_id list option \<Rightarrow> point_id list" where
  "negative_list negative = (case negative of None \<Rightarrow> [] | Some ns \<Rightarrow> ns)"

text \<open>The branch on \<^verbatim>\<open>query_filter.must_not\<close>: the list is created or appended to.\<close>

definition add_must_not :: "condition \<Rightarrow> filter_t \<Rightarrow> filter_t" where
  "add_must_not cond f =
     (case must_not f of
        None \<Rightarrow> f\<lparr>must_not := Some [cond]\<rparr>
      | Some conds \<Rightarrow> f\<lparr>must_not := Some (conds @ [cond])\<rparr>)"

text \<open>
  Filter objects live in a store, from references to objects, and \<open>recommend\<close> receives a
  reference: an assignment to \<^verbatim>\<open>query_filter.must_not\<close> or an \<^verbatim>\<open>append\<close> to it updates
  the store at that reference, where the caller reads the same object afterwards. The
  filter that \<open>recommend\<close> builds when it is given \<^verbatim>\<open>None\<close> is its own local object. A
  reference without an object does not exist in Python; the model answers \<^verbatim>\<open>TypeError\<close>.
\<close>

type_synonym store = "nat \<Rightarrow> filter_t option"

text \<open>
  What \<open>recommend\<close> does before it calls \<open>search\<close>: the query it hands over, the filter
  it hands over, and the store it leaves. An error before the filter step leaves the store
  as it was.
\<close>

definition recommend_prepare ::
  "collection \<Rightarrow> point_id list \<Rightarrow> point_id list option \<Rightarrow> nat option \<Rightarrow> string option \<Rightarrow>
   collection option \<Rightarrow> string option \<Rightarrow> store \<Rightarrow> (error + (query_vector \<times> filter_t)) \<times> store"
where
  "recommend_prepare self positive negative query_filter using lookup_from_collection
       lookup_from_vector_name st =
     (let collection = (case lookup_from_collection of None \<Rightarrow> self | Some other \<Rightarrow> other);
          search_in_vector_name = (case using of None \<Rightarrow> DEFAULT_VECTOR_NAME | Some u \<Rightarrow> u);
          vector_name = (case lookup_from_vector_name of
                           None \<Rightarrow> search_in_vector_name | Some l \<Rightarrow> l)
      in if length positive = 0 then (Inl ValueError, st)
         else
           (case gather_vectors collection vector_name positive of
              Inl e \<Rightarrow> (Inl e, st)
            | Inr positive_vectors \<Rightarrow>
                (case gather_vectors collection vector_name (negative_list negative) of
                   Inl e \<Rightarrow> (Inl e, st)
                 | Inr negative_vectors \<Rightarrow>
                     (case recommend_vector positive_vectors negative_vectors of
                        Inl e \<Rightarrow> (Inl e, st)
                      | Inr vector \<Rightarrow>
                          (let ignore_mentioned_ids =
                                 HasIdCondition (positive @ negative_list negative)
                           in case query_filter of
                                None \<Rightarrow>
                                  (Inr (QueryTuple search_in_vector_name vector,
                                        \<lparr>must = None, should = None,
                                         must_not = Some [ignore_mentioned_ids]\<rparr>), st)
                              | Some ref \<Rightarrow>
                                  (case st ref of
                                     None \<Rightarrow> (Inl TypeError, st)
                                   | Some f \<Rightarrow>
                                       (Inr (QueryTuple search_in_vector_name vector,
                                             add_must_not ignore_mentioned_ids f),
                                        st(ref := Some (add_must_not ignore_mentioned_ids f)))))))))"

definition recommend ::
  "mask_fn \<Rightarrow> dist_fn \<Rightarrow> collection \<Rightarrow> point_id list \<Rightarrow> point_id list option \<Rightarrow> nat option \<Rightarrow>
   int \<Rightarrow> int \<Rightarrow> with_payload \<Rightarrow> with_vectors \<Rightarrow> real option \<Rightarrow> string option \<Rightarrow>
   collection option \<Rightarrow> string option \<Rightarrow> store \<Rightarrow> (error + scored_point list) \<times> store"
where
  "recommend calc_mask calc_dist self positive negative query_filter limit offset wp wv thr
       using lookup_from_collection lookup_from_vector_name st =
     (case recommend_prepare self positive negative query_filter using lookup_from_collection
             lookup_from_vector_name st of
        (Inl e, st') \<Rightarrow> (Inl e, st')
      | (Inr qf, st') \<Rightarrow>
          (search calc_mask calc_dist self (fst qf) (Some (snd qf)) limit offset wp wv thr, st'))"

section \<open>Write paths: \<open>upsert\<close> and \<open>delete\<close>\<close>

datatype point_vector = VectorList vec | VectorDict "(string \<times> vec) list"

record point_struct =
  ps_id :: point_id
  ps_payload :: "payload_t option"
  ps_vector :: point_vector

text \<open>\<^verbatim>\<open>isinstance(point.vector, list)\<close>: a bare list is the default-named vector.\<close>

definition point_vectors :: "point_struct \<Rightarrow> (string \<times> vec) list" where
  "point_vectors point =
     (case ps_vector point of
        VectorList v \<Rightarrow> [(DEFAULT_VECTOR_NAME, v)]
      | VectorDict d \<Rightarrow> d)"

text \<open>\<^verbatim>\<open>vectors.keys() == self.vectors.keys()\<close>: key views compare as sets.\<close>

definition same_keys :: "(string \<times> 'a) list \<Rightarrow> (string \<times> 'b) list \<Rightarrow> bool" where
  "same_keys d1 d2 = (set (map fst d1) = set (map fst d2))"

text \<open>
  The row loop of \<open>_update_point\<close>: \<^verbatim>\<open>self.vectors[vector_name][idx] = vector\<close> writes
  into the stored array; a row that raises leaves the rows written before it in place.
\<close>

fun update_rows :: "(string \<times> vec) list \<Rightarrow> nat \<Rightarrow> collection \<Rightarrow> collection \<times> error option" where
  "update_rows [] idx c = (c, None)"
| "update_rows (nv # rest) idx c =
     (case dict_get (vectors c) (fst nv) of
        Inl e \<Rightarrow> (c, Some e)
      | Inr m \<Rightarrow>
          (case set_row m idx (snd nv) of
             Inl e \<Rightarrow> (c, Some e)
           | Inr m' \<Rightarrow> update_rows rest idx (c\<lparr>vectors := AList.update (fst nv) m' (vectors c)\<rparr>)))"

definition update_point :: "point_struct \<Rightarrow> collection \<Rightarrow> collection \<times> error option" where
  "update_point point c =
     (case dict_get (ids c) (ps_id point) of
        Inl e \<Rightarrow> (c, Some e)
      | Inr idx \<Rightarrow>
          (if length (payload c) \<le> idx then (c, Some IndexError)
           else
             (let c1 = c\<lparr>payload := (payload c)[idx := ps_payload point]\<rparr>
              in if \<not> same_keys (point_vectors point) (vectors c1) then (c1, Some AssertionError)
                 else
                   (case update_rows (point_vectors point) idx c1 of
                      (c2, Some e) \<Rightarrow> (c2, Some e)
                    | (c2, None) \<Rightarrow>
                        (if length (deleted c2) \<le> idx then (c2, Some IndexError)
                         else (c2\<lparr>deleted := (deleted c2)[idx := False]\<rparr>, None))))))"

text \<open>
  The row loop of \<open>_add_point\<close>: the matrix grows to \<open>2 * idx + 1\<close> rows when it has no
  row \<open>idx\<close>, the row is written, and only then is the matrix stored back under its name.
\<close>

fun add_rows :: "(string \<times> vec) list \<Rightarrow> nat \<Rightarrow> collection \<Rightarrow> collection \<times> error option" where
  "add_rows [] idx c = (c, None)"
| "add_rows (nv # rest) idx c =
     (case dict_get (vectors c) (fst nv) of
        Inl e \<Rightarrow> (c, Some e)
      | Inr named_vectors \<Rightarrow>
          (case set_row (if length (mrows named_vectors) \<le> idx
                         then np_resize named_vectors (idx * 2 + 1) else named_vectors)
                  idx (snd nv) of
             Inl e \<Rightarrow> (c, Some e)
           | Inr m' \<Rightarrow> add_rows rest idx (c\<lparr>vectors := AList.update (fst nv) m' (vectors c)\<rparr>)))"

definition add_point :: "point_struct \<Rightarrow> collection \<Rightarrow> collection \<times> error option" where
  "add_point point c =
     (let idx = length (ids c);
          c1 = c\<lparr>ids := AList.update (ps_id point) idx (ids c),
                 ids_inv := ids_inv c @ [ps_id point],
                 payload := payload c @ [ps_payload point],
                 deleted := deleted c @ [False]\<rparr>
      in if \<not> same_keys (point_vectors point) (vectors c1) then (c1, Some AssertionError)
         else add_rows (point_vectors point) idx c1)"

definition upsert_point ::
  "(string \<Rightarrow> bool) \<Rightarrow> point_struct \<Rightarrow> collection \<Rightarrow> collection \<times> error option"
where
  "upsert_point is_uuid point c =
     (if (case ps_id point of StrId s \<Rightarrow> \<not> is_uuid s | IntId n \<Rightarrow> False)
      then (c, Some ValueError)
      else if map_of (ids c) (ps_id point) \<noteq> None then update_point point c
      else add_point point c)"

datatype batch_vectors_t = BatchVectorList "vec list" | BatchVectorDict "(string \<times> vec list) list"

record batch =
  batch_ids :: "point_id list"
  batch_payloads :: "payload_t option list option"
  batch_vectors :: batch_vectors_t

datatype upsert_points = PointsList "point_struct list" | PointsBatch batch

fun upsert_list ::
  "(string \<Rightarrow> bool) \<Rightarrow> point_struct list \<Rightarrow> collection \<Rightarrow> collection \<times> error option"
where
  "upsert_list is_uuid [] c = (c, None)"
| "upsert_list is_uuid (point # rest) c =
     (case upsert_point is_uuid point c of
        (c', Some e) \<Rightarrow> (c', Some e)
      | (c', None) \<Rightarrow> upsert_list is_uuid rest c')"

text \<open>\<^verbatim>\<open>{name: v[idx] for name, v in vectors.items()}\<close> of the batch form.\<close>

fun batch_row :: "(string \<times> vec list) list \<Rightarrow> nat \<Rightarrow> error + (string \<times> vec) list" where
  "batch_row [] idx = Inr []"
| "batch_row (nv # rest) idx =
     (case index_list (snd nv) idx of
        Inl e \<Rightarrow> Inl e
      | Inr v \<Rightarrow>
          (case batch_row rest idx of
             Inl e \<Rightarrow> Inl e
           | Inr d \<Rightarrow> Inr ((fst nv, v) # d)))"

fun upsert_batch ::
  "(string \<Rightarrow> bool) \<Rightarrow> payload_t option list option \<Rightarrow> (string \<times> vec list) list \<Rightarrow>
   (nat \<times> point_id) list \<Rightarrow> collection \<Rightarrow> collection \<times> error option"
where
  "upsert_batch is_uuid payloads vs [] c = (c, None)"
| "upsert_batch is_uuid payloads vs (ip # rest) c =
     (case (case payloads of
              None \<Rightarrow> Inr None
            | Some ps \<Rightarrow> index_list ps (fst ip)) of
        Inl e \<Rightarrow> (c, Some e)
      | Inr p \<Rightarrow>
          (case batch_row vs (fst ip) of
             Inl e \<Rightarrow> (c, Some e)
           | Inr vector \<Rightarrow>
               (case upsert_point is_uuid
                       \<lparr>ps_id = snd ip, ps_payload = p, ps_vector = VectorDict vector\<rparr> c of
                  (c', Some e) \<Rightarrow> (c', Some e)
                | (c', None) \<Rightarrow> upsert_batch is_uuid payloads vs rest c')))"

text \<open>
  \<open>upsert\<close>: the list form, or the batch form, whose \<^verbatim>\<open>vectors\<close> is put under the
  default name when it is a list.
\<close>

definition upsert ::
  "(string \<Rightarrow> bool) \<Rightarrow> upsert_points \<Rightarrow> collection \<Rightarrow> collection \<times> error option"
where
  "upsert is_uuid points c =
     (case points of
        PointsList ps \<Rightarrow> upsert_list is_uuid ps c
      | PointsBatch b \<Rightarrow>
          upsert_batch is_uuid (batch_payloads b)
            (case batch_vectors b of
               BatchVectorList l \<Rightarrow> [(DEFAULT_VECTOR_NAME, l)]
             | BatchVectorDict d \<Rightarrow> d)
            (enumerate 0 (batch_ids b)) c)"

datatype selector =
    SelectorList "point_id list"
  | SelectorFilter filter_t
  | SelectorPointIdsList "point_id list"
  | SelectorFilterSelector filter_t

text \<open>\<^verbatim>\<open>[point_id for point_id, idx in self.ids.items() if mask[idx]]\<close>.\<close>

fun masked_ids :: "bool list \<Rightarrow> (point_id \<times> nat) list \<Rightarrow> error + point_id list" where
  "masked_ids msk [] = Inr []"
| "masked_ids msk (item # rest) =
     (case index_list msk (snd item) of
        Inl e \<Rightarrow> Inl e
      | Inr ok \<Rightarrow>
          (case masked_ids msk rest of
             Inl e \<Rightarrow> Inl e
           | Inr found \<Rightarrow> Inr (if ok then fst item # found else found)))"

definition filter_to_ids :: "mask_fn \<Rightarrow> collection \<Rightarrow> filter_t \<Rightarrow> error + point_id list" where
  "filter_to_ids calc_mask c delete_filter =
     (case combine_mask (calc_mask (payload c) (Some delete_filter) (ids_inv c)) (deleted c) of
        Inl e \<Rightarrow> Inl e
      | Inr msk \<Rightarrow> masked_ids msk (ids c))"

fun selector_to_ids :: "mask_fn \<Rightarrow> collection \<Rightarrow> selector \<Rightarrow> error + point_id list" where
  "selector_to_ids calc_mask c (SelectorList l) = Inr l"
| "selector_to_ids calc_mask c (SelectorFilter f) = filter_to_ids calc_mask c f"
| "selector_to_ids calc_mask c (SelectorPointIdsList l) = Inr l"
| "selector_to_ids calc_mask c (SelectorFilterSelector f) = filter_to_ids calc_mask c f"

text \<open>\<open>_delete_ids\<close>: an unknown id raises \<^verbatim>\<open>KeyError\<close> after the ids before it are marked.\<close>

fun delete_ids :: "point_id list \<Rightarrow> collection \<Rightarrow> collection \<times> error option" where
  "delete_ids [] c = (c, None)"
| "delete_ids (point_id # rest) c =
     (case dict_get (ids c) point_id of
        Inl e \<Rightarrow> (c, Some e)
      | Inr idx \<Rightarrow>
          (if length (deleted c) \<le> idx then (c, Some IndexError)
           else delete_ids rest (c\<lparr>deleted := (deleted c)[idx := True]\<rparr>)))"

definition delete :: "mask_fn \<Rightarrow> selector \<Rightarrow> collection \<Rightarrow> collection \<times> error option" where
  "delete calc_mask sel c =
     (case selector_to_ids calc_mask c sel of
        Inl e \<Rightarrow> (c, Some e)
      | Inr point_ids \<Rightarrow> delete_ids point_ids c)"

section \<open>Sequences of write operations\<close>

datatype operation = Upsert upsert_points | Delete selector

fun apply_operation ::
  "(string \<Rightarrow> bool) \<Rightarrow> mask_fn \<Rightarrow> operation \<Rightarrow> collection \<Rightarrow> collection \<times> error option"
where
  "apply_operation is_uuid calc_mask (Upsert points) c = upsert is_uuid points c"
| "apply_operation is_uuid calc_mask (Delete sel) c = delete calc_mask sel c"

text \<open>A run of operations each of which returns without raising; \<open>None\<close> once one raises.\<close>

fun run_successful ::
  "(string \<Rightarrow> bool) \<Rightarrow> mask_fn \<Rightarrow> operation list \<Rightarrow> collection \<Rightarrow> collection option"
where
  "run_successful is_uuid calc_mask [] c = Some c"
| "run_successful is_uuid calc_mask (op # ops) c =
     (case apply_operation is_uuid calc_mask op c of
        (c', Some e) \<Rightarrow> None
      | (c', None) \<Rightarrow> run_successful is_uuid calc_mask ops c')"

section \<open>Notions used in the statements, and example states\<close>

text \<open>The rows that the matrices hold at an index, by name, in dict order.\<close>

definition stored_rows :: "collection \<Rightarrow> nat \<Rightarrow> (string \<times> vec) list" where
  "stored_rows c idx = map (\<lambda>nm. (fst nm, mrows (snd nm) ! idx)) (vectors c)"

text \<open>Every matrix has a row at the index.\<close>

definition rows_present :: "collection \<Rightarrow> nat \<Rightarrow> bool" where
  "rows_present c idx = list_all (\<lambda>nm. idx < length (mrows (snd nm))) (vectors c)"

text \<open>A collection with the default vector name only, holding point 1 with no payload.\<close>

definition example_default :: collection where
  "example_default =
     \<lparr> vectors = [(DEFAULT_VECTOR_NAME, \<lparr>mcols = 2, mrows = [[1, 0]]\<rparr>)],
       payload = [None], deleted = [False], ids = [(IntId 1, 0)], ids_inv = [IntId 1],
       config = SingleVectorParams \<lparr>vp_size = 2, vp_distance = Dot\<rparr> \<rparr>"

text \<open>A filter evaluator that accepts every point, and a stand-in for the UUID test.\<close>

definition accept_all :: mask_fn where
  "accept_all payloads flt point_ids = replicate (length payloads) True"

definition canonical_length :: "string \<Rightarrow> bool" where
  "canonical_length s = (length s = 36)"

text \<open>
  Example inputs: a collection configured with the default name only (size 2, Dot), points
  for id 1, one of them under a vector name that is not configured, and the collection that
  holds id 1 with payload \<open>{k: 1}\<close>.
\<close>

definition example_config :: vectors_config where
  "example_config = SingleVectorParams \<lparr>vp_size = 2, vp_distance = Dot\<rparr>"

definition example_point :: point_struct where
  "example_point = \<lparr>ps_id = IntId 1, ps_payload = None, ps_vector = VectorList [1, 0]\<rparr>"

definition example_tagged :: point_struct where
  "example_tagged =
     \<lparr>ps_id = IntId 1, ps_payload = Some [(''k'', JNum 1)], ps_vector = VectorList [1, 0]\<rparr>"

definition example_misnamed :: point_struct where
  "example_misnamed =
     \<lparr>ps_id = IntId 1, ps_payload = Some [(''k'', JNum 2)],
      ps_vector = VectorDict [(''text'', [0, 1])]\<rparr>"

definition example_stored :: collection where
  "example_stored =
     \<lparr> vectors = [(DEFAULT_VECTOR_NAME, \<lparr>mcols = 2, mrows = [[1, 0]]\<rparr>)],
       payload = [Some [(''k'', JNum 1)]], deleted = [False], ids = [(IntId 1, 0)],
       ids_inv = [IntId 1], config = example_config \<rparr>"

text \<open>
  The scored point that \<open>search\<close> builds for an index, given what the two projections
  return there.
\<close>

definition scored_point_at ::
  "collection \<Rightarrow> real list \<Rightarrow> (nat \<Rightarrow> payload_t option) \<Rightarrow> (nat \<Rightarrow> vector_struct option) \<Rightarrow> nat \<Rightarrow>
   scored_point"
where
  "scored_point_at c scores P V idx =
     \<lparr>sp_id = ids_inv c ! idx, sp_score = scores ! idx, sp_version = 0,
      sp_payload = P idx, sp_vector = V idx\<rparr>"

text \<open>
  The walk of \<open>search\<close> in the words of the specification: the indices of the order whose
  mask is set, up to the first one whose score crosses the threshold.
\<close>

definition walk_candidates ::
  "bool list \<Rightarrow> real list \<Rightarrow> distance_order \<Rightarrow> real option \<Rightarrow> nat list \<Rightarrow> nat list"
where
  "walk_candidates msk scores ro thr order =
     takeWhile (\<lambda>i. \<not> crosses_threshold ro thr (scores ! i)) (filter (\<lambda>i. msk ! i) order)"

text \<open>Both projections succeed at an index, with the given results.\<close>

definition readable ::
  "collection \<Rightarrow> with_payload \<Rightarrow> with_vectors \<Rightarrow> (nat \<Rightarrow> payload_t option) \<Rightarrow>
   (nat \<Rightarrow> vector_struct option) \<Rightarrow> nat \<Rightarrow> bool"
where
  "readable c wp wv P V idx =
     (idx < length (ids_inv c) \<and> get_payload c idx wp = Inr (P idx)
      \<and> get_vectors c idx wv = Inr (V idx))"

text \<open>The combined mask: accepted by the payload filter and not tombstoned.\<close>

definition live_mask :: "bool list \<Rightarrow> bool list \<Rightarrow> bool list" where
  "live_mask payload_mask del = map2 (\<lambda>p d. p \<and> \<not> d) payload_mask del"

text \<open>An example distance kernel (the dot product) and a collection of three points.\<close>

definition example_dot :: dist_fn where
  "example_dot q rows d = Inr (map (\<lambda>r. sum_list (map2 (*) q r)) rows)"

definition example_three :: collection where
  "example_three =
     \<lparr> vectors = [(DEFAULT_VECTOR_NAME,
                    \<lparr>mcols = 2, mrows = [[1, 0], [9 / 10, 1 / 10], [0, 1]]\<rparr>)],
       payload = [None, None, None], deleted = [False, False, False],
       ids = [(IntId 1, 0), (IntId 2, 1), (IntId 3, 2)],
       ids_inv = [IntId 1, IntId 2, IntId 3],
       config = SingleVectorParams \<lparr>vp_size = 2, vp_distance = Dot\<rparr> \<rparr>"

text \<open>
  The record that \<open>scroll\<close> builds for an entry of the id table, given what the two
  projections return at its index.
\<close>

definition record_at ::
  "(nat \<Rightarrow> payload_t option) \<Rightarrow> (nat \<Rightarrow> vector_struct option) \<Rightarrow> point_id \<times> nat \<Rightarrow> point_record"
where
  "record_at P V item = \<lparr>rec_id = fst item, rec_payload = P (snd item), rec_vector = V (snd item)\<rparr>"

text \<open>
  The entries that the loop of \<open>scroll\<close> can collect: not before the offset, and with
  the mask set.
\<close>

definition scroll_candidates ::
  "bool list \<Rightarrow> point_id option \<Rightarrow> (point_id \<times> nat) list \<Rightarrow> (point_id \<times> nat) list"
where
  "scroll_candidates msk offset items =
     filter (\<lambda>it. msk ! snd it) (filter (\<lambda>it. \<not> before_offset offset (fst it)) items)"

text \<open>
  The page made of the collected entries: the first \<open>limit\<close> and the id of the next one
  when there are more than \<open>limit\<close>, all of them and no offset otherwise.
\<close>

definition scroll_page ::
  "(nat \<Rightarrow> payload_t option) \<Rightarrow> (nat \<Rightarrow> vector_struct option) \<Rightarrow> int \<Rightarrow> (point_id \<times> nat) list \<Rightarrow>
   point_record list \<times> point_id option"
where
  "scroll_page P V limit collected =
     (if limit < int (length collected)
      then (map (record_at P V) (take (nat limit) collected), Some (fst (collected ! nat limit)))
      else (map (record_at P V) collected, None))"

text \<open>A collection with integer and string ids, inserted out of order.\<close>

definition example_mixed :: collection where
  "example_mixed =
     \<lparr> vectors = [(DEFAULT_VECTOR_NAME, \<lparr>mcols = 1, mrows = [[3], [0], [1]]\<rparr>)],
       payload = [None, None, None], deleted = [False, False, False],
       ids = [(IntId 3, 0), (StrId ''a'', 1), (IntId 1, 2)],
       ids_inv = [IntId 3, StrId ''a'', IntId 1],
       config = SingleVectorParams \<lparr>vp_size = 1, vp_distance = Dot\<rparr> \<rparr>"


text \<open>
  The rows of a matrix at the indices that the id table gives for a list of example ids.
\<close>

definition example_rows :: "collection \<Rightarrow> matrix \<Rightarrow> point_id list \<Rightarrow> vec list" where
  "example_rows c m pids = map (\<lambda>pid. mrows m ! the (map_of (ids c) pid)) pids"

text \<open>
  Every example id is in the id table, at an index where the matrix has a row, of the
  width of the matrix.
\<close>

definition known_examples :: "collection \<Rightarrow> matrix \<Rightarrow> point_id list \<Rightarrow> bool" where
  "known_examples c m pids =
     list_all (\<lambda>pid. case map_of (ids c) pid of
                        None \<Rightarrow> False
                      | Some idx \<Rightarrow> idx < length (mrows m) \<and> length (mrows m ! idx) = mcols m)
       pids"

text \<open>The mean of a list of vectors, column by column, for \<open>d\<close> columns.\<close>

definition column_means :: "nat \<Rightarrow> vec list \<Rightarrow> vec" where
  "column_means d vs = map (\<lambda>j. (\<Sum>w\<leftarrow>vs. w ! j) / real (length vs)) [0..<d]"

text \<open>
  The query of \<open>recommend\<close> in the words of the specification: the mean of the positive
  vectors, or twice that mean minus the mean of the negative vectors.
\<close>

definition recommend_query :: "nat \<Rightarrow> vec list \<Rightarrow> vec list \<Rightarrow> vec" where
  "recommend_query d pv nv =
     (if nv = [] then column_means d pv
      else map2 (\<lambda>p n. 2 * p - n) (column_means d pv) (column_means d nv))"

text \<open>
  The filter that the caller supplies: the object behind the reference, or the filter
  without any clause when the argument is \<^verbatim>\<open>None\<close>.
\<close>

definition caller_filter :: "store \<Rightarrow> nat option \<Rightarrow> filter_t option" where
  "caller_filter st query_filter =
     (case query_filter of
        None \<Rightarrow> Some \<lparr>must = None, should = None, must_not = None\<rparr>
      | Some ref \<Rightarrow> st ref)"

text \<open>
  A filter augmented with a has-id condition at the end of its \<open>must_not\<close> list, the list
  created when it is \<^verbatim>\<open>None\<close>.
\<close>

definition with_ignored :: "point_id list \<Rightarrow> filter_t \<Rightarrow> filter_t" where
  "with_ignored pids f =
     f\<lparr>must_not := Some ((case must_not f of None \<Rightarrow> [] | Some conds \<Rightarrow> conds)
                          @ [HasIdCondition pids])\<rparr>"

text \<open>
  Three points under the default vector name, and a store of two filter objects: one with
  a \<open>must_not\<close> list, one without.
\<close>

definition example_pair :: collection where
  "example_pair =
     \<lparr> vectors = [(DEFAULT_VECTOR_NAME, \<lparr>mcols = 2, mrows = [[1, 0], [0, 1], [1, 1]]\<rparr>)],
       payload = [None, None, None], deleted = [False, False, False],
       ids = [(IntId 1, 0), (IntId 2, 1), (IntId 3, 2)],
       ids_inv = [IntId 1, IntId 2, IntId 3],
       config = SingleVectorParams \<lparr>vp_size = 2, vp_distance = Dot\<rparr> \<rparr>"

definition example_store :: store where
  "example_store =
     (\<lambda>r. None)
       (0 := Some \<lparr>must = None, should = None, must_not = Some [OtherCondition ''city'']\<rparr>,
        2 := Some \<lparr>must = Some [OtherCondition ''city''], should = None, must_not = None\<rparr>)"

text \<open>
  Between two states: the same matrix names, and no matrix with fewer rows than before.
\<close>

definition rows_grow :: "collection \<Rightarrow> collection \<Rightarrow> bool" where
  "rows_grow c c' =
     (\<forall>n. (map_of (vectors c) n = None \<longrightarrow> map_of (vectors c') n = None)
          \<and> (\<forall>m. map_of (vectors c) n = Some m \<longrightarrow>
                 (\<exists>m'. map_of (vectors c') n = Some m'
                       \<and> length (mrows m) \<le> length (mrows m'))))"

text \<open>Between two states: everything but the matrices is the same.\<close>

definition same_tables :: "collection \<Rightarrow> collection \<Rightarrow> bool" where
  "same_tables c c' =
     (payload c' = payload c \<and> deleted c' = deleted c \<and> ids c' = ids c
      \<and> ids_inv c' = ids_inv c \<and> config c' = config c)"

text \<open>
  The invariant of the write paths: the id table, the inverse id list, the payload list and
  the tombstones have one length, and no stored matrix has fewer rows.
\<close>

definition consistent :: "collection \<Rightarrow> bool" where
  "consistent c =
     (length (ids c) = length (payload c) \<and> length (ids_inv c) = length (payload c)
      \<and> length (deleted c) = length (payload c)
      \<and> (\<forall>n m. map_of (vectors c) n = Some m \<longrightarrow> length (payload c) \<le> length (mrows m)))"

text \<open>
  Every configured vector name has a stored matrix with at least as many rows as there are
  payloads.
\<close>

definition rows_cover :: "vectors_config \<Rightarrow> collection \<Rightarrow> bool" where
  "rows_cover cfg c =
     list_all (\<lambda>np. case map_of (vectors c) (fst np) of
                       None \<Rightarrow> False
                     | Some m \<Rightarrow> length (payload c) \<le> length (mrows m))
       (config_items cfg)"

text \<open>
  The row that \<^verbatim>\<open>a[idx] = v\<close> leaves in a matrix of width \<open>d\<close>: the value, or its single
  element broadcast to the width.
\<close>

definition row_value :: "nat \<Rightarrow> vec \<Rightarrow> vec" where
  "row_value d v = (if length v = d then v else replicate d (hd v))"

text \<open>
  Every named vector of a point is in the row \<open>idx\<close> of the matrix stored under its name.
\<close>

definition rows_written :: "collection \<Rightarrow> nat \<Rightarrow> (string \<times> vec) list \<Rightarrow> bool" where
  "rows_written c idx nvs =
     list_all (\<lambda>nv. case map_of (vectors c) (fst nv) of
                       None \<Rightarrow> False
                     | Some m \<Rightarrow> idx < length (mrows m)
                         \<and> mrows m ! idx = row_value (mcols m) (snd nv))
       nvs"

text \<open>
  A second point, a new version of point 1, and a run of three operations from the fresh
  collection with the state that it reaches: point 1 tombstoned, point 2 live.
\<close>

definition example_second :: point_struct where
  "example_second = \<lparr>ps_id = IntId 2, ps_payload = None, ps_vector = VectorList [0, 1]\<rparr>"

definition example_again :: point_struct where
  "example_again =
     \<lparr>ps_id = IntId 1, ps_payload = Some [(''k'', JNum 3)], ps_vector = VectorList [1, 1]\<rparr>"

definition example_run :: "operation list" where
  "example_run =
     [Upsert (PointsList [example_tagged]), Delete (SelectorList [IntId 1]),
      Upsert (PointsList [example_second])]"

definition example_after_run :: collection where
  "example_after_run =
     \<lparr> vectors = [(DEFAULT_VECTOR_NAME, \<lparr>mcols = 2, mrows = [[1, 0], [0, 1], [1, 0]]\<rparr>)],
       payload = [Some [(''k'', JNum 1)], None], deleted = [True, False],
       ids = [(IntId 1, 0), (IntId 2, 1)], ids_inv = [IntId 1, IntId 2],
       config = example_config \<rparr>"

section \<open>Properties\<close>

lemma all_rows_at_ok:
  "list_all (\<lambda>nm. idx < length (mrows (snd nm))) vs \<Longrightarrow>
   all_rows_at vs idx = Inr (map (\<lambda>nm. (fst nm, mrows (snd nm) ! idx)) vs)"
  by (induction vs) (simp_all add: index_list_def)

lemma select_names_ok:
  "set ns \<subseteq> fst ` set d \<Longrightarrow> distinct (map fst acc) \<Longrightarrow>
   \<exists>sub. select_names d ns acc = Inr sub \<and> distinct (map fst sub)
      \<and> map_of sub = map_of acc ++ (map_of d |` set ns)"
proof (induction ns arbitrary: acc)
  case Nil
  then show ?case by simp
next
  case (Cons n ns)
  from Cons.prems(1) obtain v where v: "map_of d n = Some v"
    by (metis list.set_intros(1) subsetD map_of_eq_None_iff not_None_eq)
  have d: "distinct (map fst (AList.update n v acc))"
    using Cons.prems(2) by (simp add: distinct_update)
  from Cons.prems(1) have sub: "set ns \<subseteq> fst ` set d" by simp
  from Cons.IH[OF sub d] obtain sub where
    s: "select_names d ns (AList.update n v acc) = Inr sub" "distinct (map fst sub)"
       "map_of sub = map_of (AList.update n v acc) ++ (map_of d |` set ns)" by blast
  have "map_of sub = map_of acc ++ (map_of d |` set (n # ns))"
    unfolding s(3) using v
    by (auto simp: update_conv' fun_eq_iff map_add_def restrict_map_def split: option.splits)
  with s v show ?case by simp
qed

lemma unwrap_single:
  "unwrap_default vs =
   (if map fst vs = [DEFAULT_VECTOR_NAME] then BareVector (snd (hd vs)) else NamedVectors vs)"
proof (cases vs)
  case Nil
  then show ?thesis by (simp add: unwrap_default_def)
next
  case (Cons a rest)
  then show ?thesis by (cases a; cases rest) (auto simp: unwrap_default_def split: option.splits)
qed

lemma keys_single:
  assumes "distinct (map fst sub)" and "dom (map_of sub) = set ns"
  shows "(map fst sub = [k]) = (set ns = {k})"
proof
  assume "map fst sub = [k]"
  then have "fst ` set sub = {k}" by (metis list.set_map list.simps(15) empty_set)
  with assms(2) show "set ns = {k}" by (simp add: dom_map_of_conv_image_fst)
next
  assume "set ns = {k}"
  with assms(2) have s: "set (map fst sub) = {k}" by (simp add: dom_map_of_conv_image_fst)
  have "length (map fst sub) = card (set (map fst sub))"
    using assms(1) by (simp only: distinct_card)
  with s have "length (map fst sub) = 1" by simp
  with s show "map fst sub = [k]"
    by (cases "map fst sub") auto
qed


text \<open>
  C8, as amended. \<open>_get_vectors\<close> on an index that every matrix holds: \<^verbatim>\<open>False\<close> and the
  empty list omit the vectors; \<^verbatim>\<open>True\<close> returns all named vectors as a map, except when the
  configured names are exactly the default name, where the single array is returned bare; a
  non-empty list of configured names returns the map restricted to the listed names, and the
  same unwrap rule applies to it: when the listed names are exactly the default name, the
  single array is returned bare.
\<close>

theorem get_vectors_projection:
  assumes "rows_present c idx"
  shows "get_vectors c idx (WithVectorsBool False) = Inr None
       \<and> get_vectors c idx (WithVectorsList []) = Inr None
       \<and> get_vectors c idx (WithVectorsBool True) =
           Inr (Some (if map fst (vectors c) = [DEFAULT_VECTOR_NAME]
                      then BareVector (snd (hd (stored_rows c idx)))
                      else NamedVectors (stored_rows c idx)))
       \<and> (ns \<noteq> [] \<and> set ns \<subseteq> fst ` set (vectors c) \<longrightarrow>
            (\<exists>sub. distinct (map fst sub)
                \<and> map_of sub = map_of (stored_rows c idx) |` set ns
                \<and> get_vectors c idx (WithVectorsList ns) =
                    Inr (Some (if set ns = {DEFAULT_VECTOR_NAME}
                               then BareVector (snd (hd sub)) else NamedVectors sub))))"
proof -
  have rows: "all_rows_at (vectors c) idx = Inr (stored_rows c idx)"
    using assms by (simp add: rows_present_def stored_rows_def all_rows_at_ok)
  have keys: "map fst (stored_rows c idx) = map fst (vectors c)"
    by (simp add: stored_rows_def comp_def)
  have f: "get_vectors c idx (WithVectorsBool False) = Inr None"
    by (simp add: get_vectors_def)
  have e: "get_vectors c idx (WithVectorsList []) = Inr None"
    by (simp add: get_vectors_def)
  have t: "get_vectors c idx (WithVectorsBool True) =
           Inr (Some (if map fst (vectors c) = [DEFAULT_VECTOR_NAME]
                      then BareVector (snd (hd (stored_rows c idx)))
                      else NamedVectors (stored_rows c idx)))"
    by (simp add: get_vectors_def rows unwrap_single keys del: One_nat_def)
  have l: "\<exists>sub. distinct (map fst sub)
                \<and> map_of sub = map_of (stored_rows c idx) |` set ns
                \<and> get_vectors c idx (WithVectorsList ns) =
                    Inr (Some (if set ns = {DEFAULT_VECTOR_NAME}
                               then BareVector (snd (hd sub)) else NamedVectors sub))"
    if ne: "ns \<noteq> []" and sub: "set ns \<subseteq> fst ` set (vectors c)"
  proof -
    have "set ns \<subseteq> fst ` set (stored_rows c idx)"
      using sub keys by (metis list.set_map)
    from select_names_ok[OF this, of "[]"] obtain s where
      s: "select_names (stored_rows c idx) ns [] = Inr s" "distinct (map fst s)"
         "map_of s = map_of (stored_rows c idx) |` set ns" by auto
    have "dom (map_of s) = set ns"
      using s(3) \<open>set ns \<subseteq> fst ` set (stored_rows c idx)\<close>
      by (auto simp: dom_map_of_conv_image_fst restrict_map_def dom_def split: if_splits)
         (metis (no_types, lifting) image_iff map_of_eq_None_iff subsetD not_None_eq)
    from keys_single[OF s(2) this]
    have k: "(map fst s = [DEFAULT_VECTOR_NAME]) = (set ns = {DEFAULT_VECTOR_NAME})" .
    have "get_vectors c idx (WithVectorsList ns) =
          Inr (Some (if set ns = {DEFAULT_VECTOR_NAME}
                     then BareVector (snd (hd s)) else NamedVectors s))"
      using ne by (simp add: get_vectors_def rows s(1) unwrap_single k del: One_nat_def)
    with s show ?thesis by blast
  qed
  from f e t l show ?thesis by blast
qed

theorem get_vectors_projection_witness:
  "rows_present example_default 0
   \<and> get_vectors example_default 0 (WithVectorsBool True) = Inr (Some (BareVector [1, 0]))"
  using get_vectors_projection [of example_default 0 "[]"]
  by (simp add: rows_present_def example_default_def stored_rows_def)

text \<open>
  Requesting the default name by list yields the bare array, not a one-entry map.
\<close>

theorem get_vectors_list_default_counterexample:
  "get_vectors example_default 0 (WithVectorsList [DEFAULT_VECTOR_NAME]) =
     Inr (Some (BareVector [1, 0]))
   \<and> get_vectors example_default 0 (WithVectorsList [DEFAULT_VECTOR_NAME]) \<noteq>
     Inr (Some (NamedVectors [(DEFAULT_VECTOR_NAME, [1, 0])]))"
  by (simp add: get_vectors_def example_default_def index_list_def unwrap_default_def DEFAULT_VECTOR_NAME_def)

text \<open>The definitions that a run on a concrete input unfolds.\<close>

lemmas eval_defs =
  upsert_def upsert_point_def add_point_def update_point_def same_keys_def point_vectors_def
  init_collection_def config_items_def dict_get_def set_row_def np_resize_def index_list_def
  DEFAULT_VECTOR_NAME_def delete_def retrieve_def get_payload_def get_vectors_def
  example_config_def Let_def

lemma example_default_reached:
  "upsert canonical_length (PointsList [example_point]) (init_collection example_config) =
     (example_default, None)"
  by (simp add: eval_defs example_point_def example_default_def)

lemma example_stored_reached:
  "upsert canonical_length (PointsList [example_tagged]) (init_collection example_config) =
     (example_stored, None)"
  by (simp add: eval_defs example_tagged_def example_stored_def)

text \<open>
  C2. \<open>delete\<close> only sets the tombstone, and \<open>retrieve\<close> never reads it: after
  \<open>delete([1])\<close> on the collection that holds id 1, \<open>retrieve([1])\<close> returns the record
  of point 1 instead of the empty list.
\<close>

theorem retrieve_after_delete_returns_point:
  "delete accept_all (SelectorList [IntId 1]) example_stored =
     (example_stored\<lparr>deleted := [True]\<rparr>, None)
   \<and> retrieve (example_stored\<lparr>deleted := [True]\<rparr>) [IntId 1] (WithPayloadBool True)
         (WithVectorsBool False) =
       Inr [\<lparr>rec_id = IntId 1, rec_payload = Some [(''k'', JNum 1)], rec_vector = None\<rparr>]"
  by (simp add: eval_defs example_stored_def)

text \<open>
  C3. A point whose vector names are not the configured ones fails the assertion after the
  collection has been written to: on a known id the stored payload is already replaced; on
  an unknown id the id table, the payload list and the tombstones already hold the new
  entry, for which no matrix has a row.
\<close>

theorem failed_upsert_leaves_changes:
  "upsert_point canonical_length example_misnamed example_stored =
     (example_stored\<lparr>payload := [Some [(''k'', JNum 2)]]\<rparr>, Some AssertionError)
   \<and> upsert_point canonical_length example_misnamed (init_collection example_config) =
     ((init_collection example_config)
        \<lparr>ids := [(IntId 1, 0)], ids_inv := [IntId 1],
         payload := [Some [(''k'', JNum 2)]], deleted := [False]\<rparr>, Some AssertionError)"
  by (simp add: eval_defs example_misnamed_def example_stored_def)

subsection \<open>The walk of \<open>search\<close>\<close>

lemma search_walk_eq:
  assumes "\<forall>idx\<in>set order. idx < length msk \<and> idx < length scores
             \<and> (msk ! idx \<longrightarrow> readable c wp wv P V idx)"
  shows "search_walk c msk scores ro limit offset wp wv thr order acc =
         Inr (acc @ map (scored_point_at c scores P V)
                      (take (nat (limit + offset - int (length acc)))
                         (walk_candidates msk scores ro thr order)))"
  using assms
proof (induction order arbitrary: acc)
  case Nil
  then show ?case by (simp add: walk_candidates_def)
next
  case (Cons idx order)
  have rest: "\<forall>i\<in>set order. i < length msk \<and> i < length scores
                \<and> (msk ! i \<longrightarrow> readable c wp wv P V i)"
    using Cons.prems by simp
  have here: "idx < length msk" "idx < length scores"
    using Cons.prems by simp_all
  have rdh: "readable c wp wv P V idx" if "msk ! idx"
    using Cons.prems that by simp
  show ?case
  proof (cases "limit + offset \<le> int (length acc)")
    case True
    then show ?thesis by simp
  next
    case room: False
    show ?thesis
    proof (cases "msk ! idx")
      case False
      then show ?thesis
        using room here Cons.IH[OF rest, of acc]
        by (simp add: index_list_def walk_candidates_def)
    next
      case ok: True
      show ?thesis
      proof (cases "crosses_threshold ro thr (scores ! idx)")
        case True
        then show ?thesis
          using room here ok rdh[OF ok]
          by (simp add: index_list_def walk_candidates_def readable_def)
      next
        case False
        have k: "nat (limit + offset - int (length acc)) =
                 Suc (nat (limit + offset - int (length (acc @ [scored_point_at c scores P V idx]))))"
          using room by simp
        have step: "search_walk c msk scores ro limit offset wp wv thr (idx # order) acc =
                    search_walk c msk scores ro limit offset wp wv thr order
                      (acc @ [scored_point_at c scores P V idx])"
          using room here ok False rdh[OF ok]
          by (simp add: index_list_def readable_def scored_point_at_def)
        have w: "walk_candidates msk scores ro thr (idx # order) =
                 idx # walk_candidates msk scores ro thr order"
          using ok False by (simp add: walk_candidates_def)
        show ?thesis
          unfolding step w k Cons.IH[OF rest] by simp
      qed
    qed
  qed
qed


lemma combine_mask_live:
  "length pm = length del \<Longrightarrow> combine_mask pm del = Inr (live_mask pm del)"
  by (simp add: combine_mask_def np_binop_def live_mask_def zip_map2 split_def)

lemma set_argsort: "set (argsort scores) = {0..<length scores}"
  by (simp add: argsort_def)

lemma distinct_argsort: "distinct (argsort scores)"
  by (simp add: argsort_def)

lemma sorted_argsort: "sorted (map (\<lambda>i. scores ! i) (argsort scores))"
  by (simp add: argsort_def)

lemma set_search_order: "set (search_order ro scores) = {0..<length scores}"
  by (simp add: search_order_def set_argsort)

lemma distinct_search_order: "distinct (search_order ro scores)"
  by (simp add: search_order_def distinct_argsort)

lemma length_page:
  "0 \<le> limit \<Longrightarrow> 0 \<le> offset \<Longrightarrow>
   length (drop (nat offset) (take (nat (limit + offset)) xs)) \<le> nat limit"
  by (simp add: nat_add_distrib)

text \<open>
  C1. For a search with \<open>limit\<close> and \<open>offset\<close> not negative, on a collection whose
  arrays have one length and whose projections succeed at the indices of the combined mask,
  \<open>search\<close> returns the points of the walk of the score-sorted order: the order is a
  permutation of the internal indices, descending in score when bigger is better and
  ascending otherwise; indices whose combined mask (payload mask and not tombstoned) is
  unset are skipped; the walk ends at the first masked index whose score crosses the
  threshold, that is, a score below the threshold when bigger is better, a score above it
  otherwise, and never when no threshold is given; at most \<open>limit + offset\<close> points are
  accumulated and the first \<open>offset\<close> of them are dropped, so the page has at most
  \<open>limit\<close> entries.
\<close>

theorem search_walks_sorted_order:
  assumes lim: "0 \<le> limit" "0 \<le> offset"
    and name: "map_of (vectors c) (fst (resolve_vector_name qv)) = Some m"
    and params: "get_vector_params c (fst (resolve_vector_name qv)) = Inr params"
    and dist: "calc_dist (snd (resolve_vector_name qv)) (take (length (payload c)) (mrows m))
                 (vp_distance params) = Inr scores"
    and lens: "length scores = length (payload c)"
              "length (calc_mask (payload c) flt (ids_inv c)) = length (payload c)"
              "length (deleted c) = length (payload c)"
    and rd: "\<forall>idx<length (payload c).
               live_mask (calc_mask (payload c) flt (ids_inv c)) (deleted c) ! idx \<longrightarrow>
               readable c wp wv P V idx"
  shows "search calc_mask calc_dist c qv flt limit offset wp wv thr =
           Inr (map (scored_point_at c scores P V)
                  (drop (nat offset) (take (nat (limit + offset))
                     (walk_candidates (live_mask (calc_mask (payload c) flt (ids_inv c)) (deleted c))
                        scores (distance_to_order (vp_distance params)) thr
                        (search_order (distance_to_order (vp_distance params)) scores)))))
       \<and> length (drop (nat offset) (take (nat (limit + offset))
                     (walk_candidates (live_mask (calc_mask (payload c) flt (ids_inv c)) (deleted c))
                        scores (distance_to_order (vp_distance params)) thr
                        (search_order (distance_to_order (vp_distance params)) scores)))) \<le> nat limit
       \<and> distinct (search_order (distance_to_order (vp_distance params)) scores)
       \<and> set (search_order (distance_to_order (vp_distance params)) scores) =
           {0..<length (payload c)}
       \<and> (if distance_to_order (vp_distance params) = BIGGER_IS_BETTER
          then sorted (rev (map (\<lambda>i. scores ! i)
                 (search_order (distance_to_order (vp_distance params)) scores)))
          else sorted (map (\<lambda>i. scores ! i)
                 (search_order (distance_to_order (vp_distance params)) scores)))
       \<and> (\<forall>msk' scores' ro' thr' order'.
            walk_candidates msk' scores' ro' thr' order' =
              takeWhile (\<lambda>i. \<not> crosses_threshold ro' thr' (scores' ! i))
                (filter (\<lambda>i. msk' ! i) order'))
       \<and> (\<forall>ro' score. \<not> crosses_threshold ro' None score)
       \<and> (\<forall>t score. crosses_threshold BIGGER_IS_BETTER (Some t) score = (score < t))
       \<and> (\<forall>t score. crosses_threshold SMALLER_IS_BETTER (Some t) score = (t < score))"
proof -
  let ?ro = "distance_to_order (vp_distance params)"
  let ?msk = "live_mask (calc_mask (payload c) flt (ids_inv c)) (deleted c)"
  let ?order = "search_order ?ro scores"
  have msk: "combine_mask (calc_mask (payload c) flt (ids_inv c)) (deleted c) = Inr ?msk"
    using lens by (simp add: combine_mask_live)
  have lm: "length ?msk = length (payload c)"
    using lens by (simp add: live_mask_def)
  have ok: "\<forall>idx\<in>set ?order. idx < length ?msk \<and> idx < length scores
              \<and> (?msk ! idx \<longrightarrow> readable c wp wv P V idx)"
    using rd lens(1) lm by (simp add: set_search_order)
  have walk: "search_walk c ?msk scores ?ro limit offset wp wv thr ?order [] =
              Inr (map (scored_point_at c scores P V)
                     (take (nat (limit + offset)) (walk_candidates ?msk scores ?ro thr ?order)))"
    using search_walk_eq[OF ok, of ?ro limit offset thr "[]"] by simp
  have s: "search calc_mask calc_dist c qv flt limit offset wp wv thr =
           Inr (map (scored_point_at c scores P V)
                  (drop (nat offset) (take (nat (limit + offset))
                     (walk_candidates ?msk scores ?ro thr ?order))))"
    using lim by (simp add: search_def name params dist msk walk slice_from_def slice_start_def drop_map)
  have p: "distinct ?order \<and> set ?order = {0..<length (payload c)}"
    using lens(1) by (simp add: set_search_order distinct_search_order)
  have o: "if ?ro = BIGGER_IS_BETTER then sorted (rev (map (\<lambda>i. scores ! i) ?order))
           else sorted (map (\<lambda>i. scores ! i) ?order)"
    by (simp add: search_order_def sorted_argsort rev_map)
  have l: "length (drop (nat offset) (take (nat (limit + offset))
                     (walk_candidates ?msk scores ?ro thr ?order))) \<le> nat limit"
    by (rule length_page[OF lim])
  have w: "\<forall>msk' scores' ro' thr' order'.
            walk_candidates msk' scores' ro' thr' order' =
              takeWhile (\<lambda>i. \<not> crosses_threshold ro' thr' (scores' ! i))
                (filter (\<lambda>i. msk' ! i) order')"
    by (simp add: walk_candidates_def)
  have t0: "\<forall>ro' score. \<not> crosses_threshold ro' None score"
    by (simp add: crosses_threshold_def)
  have t1: "\<forall>t score. crosses_threshold BIGGER_IS_BETTER (Some t) score = (score < t)"
    by (simp add: crosses_threshold_def)
  have t2: "\<forall>t score. crosses_threshold SMALLER_IS_BETTER (Some t) score = (t < score)"
    by (simp add: crosses_threshold_def)
  show ?thesis
    by (intro conjI) (rule s l p[THEN conjunct1] p[THEN conjunct2] o w t0 t1 t2)+
qed

text \<open>
  Three points with scores \<open>1\<close>, \<open>9/10\<close> and \<open>0\<close> under the dot product, a threshold of
  \<open>1/2\<close>, limit 5 and offset 1: the walk ends at the third point, whose score is below the
  threshold, long before \<open>limit + offset\<close> points are accumulated, and the first of the two
  accumulated points is dropped.
\<close>

theorem search_walks_sorted_order_witness:
  "search accept_all example_dot example_three (QueryList [1, 0]) None 5 1
     (WithPayloadBool True) (WithVectorsBool False) (Some (1 / 2)) =
   Inr [\<lparr>sp_id = IntId 2, sp_score = 9 / 10, sp_version = 0, sp_payload = None,
         sp_vector = None\<rparr>]"
proof -
  let ?m = "\<lparr>mcols = 2, mrows = [[1, 0], [9 / 10, 1 / 10], [0, 1 :: real]]\<rparr>"
  let ?params = "\<lparr>vp_size = 2, vp_distance = Dot\<rparr>"
  let ?scores = "[1, 9 / 10, 0 :: real]"
  have h1: "(0::int) \<le> 1" by simp
  have h0: "(0::int) \<le> 5" by simp
  have h3: "map_of (vectors example_three) (fst (resolve_vector_name (QueryList [1, 0]))) = Some ?m"
    by (simp add: example_three_def)
  have h4: "get_vector_params example_three (fst (resolve_vector_name (QueryList [1, 0]))) =
            Inr ?params"
    by (simp add: example_three_def get_vector_params_def)
  have h5: "example_dot (snd (resolve_vector_name (QueryList [1, 0])))
              (take (length (payload example_three)) (mrows ?m)) (vp_distance ?params) =
            Inr ?scores"
    by (simp add: example_three_def example_dot_def)
  have h6: "length ?scores = length (payload example_three)"
    by (simp add: example_three_def)
  have h7: "length (accept_all (payload example_three) None (ids_inv example_three)) =
            length (payload example_three)"
    by (simp add: accept_all_def)
  have h8: "length (deleted example_three) = length (payload example_three)"
    by (simp add: example_three_def)
  have h9: "\<forall>idx<length (payload example_three).
              live_mask (accept_all (payload example_three) None (ids_inv example_three))
                (deleted example_three) ! idx \<longrightarrow>
              readable example_three (WithPayloadBool True) (WithVectorsBool False)
                (\<lambda>i. None) (\<lambda>i. None) idx"
    by (simp add: example_three_def readable_def get_payload_def get_vectors_def
          index_list_def All_less_Suc nth_Cons')
  have order: "search_order BIGGER_IS_BETTER ?scores = [0, 1, 2]"
    by (simp add: search_order_def argsort_def upt_rec)
  show ?thesis
    using search_walks_sorted_order[where calc_dist = example_dot and calc_mask = accept_all
        and c = example_three and qv = "QueryList [1, 0]" and flt = None
        and wp = "WithPayloadBool True" and wv = "WithVectorsBool False"
        and P = "\<lambda>i. None" and V = "\<lambda>i. None" and thr = "Some (1 / 2)",
        OF h0 h1 h3 h4 h5 h6 h7 h8 h9, THEN conjunct1]
    by (simp add: order walk_candidates_def live_mask_def accept_all_def example_three_def
          crosses_threshold_def scored_point_at_def)
qed

lemma scroll_loop_eq:
  assumes "\<forall>it\<in>set items. snd it < length msk \<and> readable c wp wv P V (snd it)"
  shows "scroll_loop c msk limit offset wp wv items acc =
         Inr (acc @ map (record_at P V)
                      (take (nat (limit + 1 - int (length acc)))
                         (scroll_candidates msk offset items)))"
  using assms
proof (induction items arbitrary: acc)
  case Nil
  then show ?case by (simp add: scroll_candidates_def)
next
  case (Cons item items)
  have rest: "\<forall>it\<in>set items. snd it < length msk \<and> readable c wp wv P V (snd it)"
    using Cons.prems by simp
  have here: "snd item < length msk" "readable c wp wv P V (snd item)"
    using Cons.prems by simp_all
  show ?case
  proof (cases "before_offset offset (fst item)")
    case True
    then show ?thesis
      using Cons.IH[OF rest, of acc] by (simp add: scroll_candidates_def)
  next
    case reached: False
    show ?thesis
    proof (cases "limit + 1 \<le> int (length acc)")
      case True
      then show ?thesis using reached by simp
    next
      case room: False
      show ?thesis
      proof (cases "msk ! snd item")
        case False
        then show ?thesis
          using reached room here Cons.IH[OF rest, of acc]
          by (simp add: index_list_def scroll_candidates_def)
      next
        case ok: True
        have k: "nat (limit + 1 - int (length acc)) =
                 Suc (nat (limit + 1 - int (length (acc @ [record_at P V item]))))"
          using room by simp
        have step: "scroll_loop c msk limit offset wp wv (item # items) acc =
                    scroll_loop c msk limit offset wp wv items (acc @ [record_at P V item])"
          using reached room here ok
          by (simp add: index_list_def readable_def record_at_def)
        have w: "scroll_candidates msk offset (item # items) =
                 item # scroll_candidates msk offset items"
          using reached ok by (simp add: scroll_candidates_def)
        show ?thesis
          unfolding step w k Cons.IH[OF rest] by simp
      qed
    qed
  qed
qed

lemma universal_id_order:
  "(universal_id (IntId a) < universal_id (IntId b)) = (a < b)"
  "(universal_id (StrId s) < universal_id (StrId t)) = (s < t)"
  "s \<noteq> [] \<Longrightarrow> universal_id (IntId a) < universal_id (StrId s)"
  by (auto simp: less_prod_def' neq_Nil_conv)

lemma sorted_ids_perm:
  "sorted (map (\<lambda>it. universal_id (fst it)) (sorted_ids c))"
  "set (sorted_ids c) = set (ids c)"
  "length (sorted_ids c) = length (ids c)"
  by (simp_all add: sorted_ids_def)


lemma scroll_finish:
  assumes "0 \<le> limit"
  shows "(if limit < int (length (map (record_at P V) collected))
          then (case py_index (map (record_at P V) collected) limit of
                  Inl e \<Rightarrow> Inl e
                | Inr r \<Rightarrow> Inr (slice_to (map (record_at P V) collected) limit, Some (rec_id r)))
          else Inr (map (record_at P V) collected, None)) =
         Inr (scroll_page P V limit collected)"
proof (cases "limit < int (length collected)")
  case True
  then have n: "nat limit < length collected" using assms by arith
  show ?thesis
    using assms True n
    by (simp add: scroll_page_def py_index_def index_list_def slice_to_def slice_start_def
          take_map record_at_def)
next
  case False
  then show ?thesis by (simp add: scroll_page_def)
qed

text \<open>
  C4. On a non-empty collection, \<open>scroll\<close> with a limit that is not negative visits the
  id table sorted by \<open>universal_id\<close> (integers by value, strings lexicographically, every
  integer before every non-empty string), skips the ids that are strictly below the offset
  (the offset itself is not skipped), collects at most \<open>limit + 1\<close> entries whose mask is
  set, and returns the first \<open>limit\<close> records with the id of the next one, or all of them
  and no offset. A collection with an empty id table returns \<open>([], None)\<close> whatever the
  filter evaluator is.
\<close>

theorem scroll_pages_in_universal_order:
  assumes lim: "0 \<le> limit"
    and ne: "ids c \<noteq> []"
    and len: "length (calc_mask (payload c) flt (ids_inv c)) = length (deleted c)"
    and rd: "\<forall>it\<in>set (ids c). snd it < length (deleted c) \<and> readable c wp wv P V (snd it)"
  shows "scroll calc_mask c flt limit offset wp wv =
           Inr (scroll_page P V limit
                  (take (nat (limit + 1))
                     (scroll_candidates
                        (live_mask (calc_mask (payload c) flt (ids_inv c)) (deleted c))
                        offset (sorted_ids c))))
       \<and> sorted (map (\<lambda>it. universal_id (fst it)) (sorted_ids c))
       \<and> set (sorted_ids c) = set (ids c)
       \<and> length (sorted_ids c) = length (ids c)
       \<and> (\<forall>a b. (universal_id (IntId a) < universal_id (IntId b)) = (a < b))
       \<and> (\<forall>s t. (universal_id (StrId s) < universal_id (StrId t)) = (s < t))
       \<and> (\<forall>a ch s. universal_id (IntId a) < universal_id (StrId (ch # s)))
       \<and> (\<forall>off pid. before_offset (Some off) pid = (universal_id pid < universal_id off))
       \<and> (\<forall>off. \<not> before_offset (Some off) off)
       \<and> scroll calc_mask' (c'\<lparr>ids := []\<rparr>) flt' limit' offset' wp' wv' = Inr ([], None)"
proof -
  let ?msk = "live_mask (calc_mask (payload c) flt (ids_inv c)) (deleted c)"
  have msk: "combine_mask (calc_mask (payload c) flt (ids_inv c)) (deleted c) = Inr ?msk"
    using len by (simp add: combine_mask_live)
  have lm: "length ?msk = length (deleted c)"
    using len by (simp add: live_mask_def)
  have ok: "\<forall>it\<in>set (sorted_ids c). snd it < length ?msk \<and> readable c wp wv P V (snd it)"
    using rd lm by (simp add: sorted_ids_perm(2))
  have loop: "scroll_loop c ?msk limit offset wp wv (sorted_ids c) [] =
              Inr (map (record_at P V)
                     (take (nat (limit + 1)) (scroll_candidates ?msk offset (sorted_ids c))))"
    using scroll_loop_eq[OF ok, of limit offset "[]"] by simp
  have s: "scroll calc_mask c flt limit offset wp wv =
           Inr (scroll_page P V limit
                  (take (nat (limit + 1)) (scroll_candidates ?msk offset (sorted_ids c))))"
    using ne by (simp add: scroll_def msk loop scroll_finish[OF lim] del: length_map)
  have e: "scroll calc_mask' (c'\<lparr>ids := []\<rparr>) flt' limit' offset' wp' wv' = Inr ([], None)"
    by (simp add: scroll_def)
  have u: "\<forall>a ch s. universal_id (IntId a) < universal_id (StrId (ch # s))"
    by (simp add: universal_id_order(3))
  have b: "\<forall>off pid. before_offset (Some off) pid = (universal_id pid < universal_id off)"
    by (simp add: before_offset_def)
  have n: "\<forall>off. \<not> before_offset (Some off) off"
    by (simp add: before_offset_def)
  show ?thesis
    by (intro conjI)
       (rule s sorted_ids_perm e b n u allI universal_id_order(1,2))+
qed

text \<open>A page of two out of three points, with the string id as the next offset.\<close>

theorem scroll_pages_in_universal_order_witness:
  "scroll accept_all example_mixed None 2 None (WithPayloadBool True) (WithVectorsBool False) =
     Inr ([\<lparr>rec_id = IntId 1, rec_payload = None, rec_vector = None\<rparr>,
           \<lparr>rec_id = IntId 3, rec_payload = None, rec_vector = None\<rparr>], Some (StrId ''a''))"
proof -
  have h1: "(0::int) \<le> 2" by simp
  have h2: "ids example_mixed \<noteq> []" by (simp add: example_mixed_def)
  have h3: "length (accept_all (payload example_mixed) None (ids_inv example_mixed)) =
            length (deleted example_mixed)"
    by (simp add: accept_all_def example_mixed_def)
  have h4: "\<forall>it\<in>set (ids example_mixed). snd it < length (deleted example_mixed) \<and>
              readable example_mixed (WithPayloadBool True) (WithVectorsBool False)
                (\<lambda>i. None) (\<lambda>i. None) (snd it)"
    by (simp add: example_mixed_def readable_def get_payload_def get_vectors_def index_list_def)
  have order: "sorted_ids example_mixed = [(IntId 1, 2), (IntId 3, 0), (StrId ''a'', 1)]"
    by (simp add: sorted_ids_def example_mixed_def less_eq_prod_def)
  note res = scroll_pages_in_universal_order[where calc_mask = accept_all and c = example_mixed
        and flt = None and wp = "WithPayloadBool True" and wv = "WithVectorsBool False"
        and P = "\<lambda>i. None" and V = "\<lambda>i. None" and offset = None,
        OF h1 h2 h3 h4, THEN conjunct1]
  show ?thesis
    unfolding res order
    by (simp add: scroll_candidates_def scroll_page_def live_mask_def accept_all_def
          example_mixed_def before_offset_def record_at_def)
qed

subsection \<open>Reading a payload that is \<^verbatim>\<open>None\<close>\<close>











subsection \<open>\<open>recommend\<close>\<close>

lemma gather_vectors_eq:
  assumes "map_of (vectors c) name = Some m" and "known_examples c m pids"
  shows "gather_vectors c name pids = Inr (example_rows c m pids)"
  using assms(2)
proof (induction pids)
  case Nil
  then show ?case by (simp add: example_rows_def)
next
  case (Cons pid pids)
  from Cons.prems obtain idx where
    i: "map_of (ids c) pid = Some idx" "idx < length (mrows m)"
    by (auto simp: known_examples_def split: option.splits)
  have rest: "known_examples c m pids"
    using Cons.prems by (simp add: known_examples_def)
  show ?case
    using Cons.IH[OF rest] i assms(1)
    by (simp add: dict_get_def index_list_def example_rows_def)
qed

lemma example_rows_length:
  assumes "known_examples c m pids"
  shows "list_all (\<lambda>w. length w = mcols m) (example_rows c m pids)"
  using assms
  by (induction pids) (auto simp: known_examples_def example_rows_def split: option.splits)

lemma stack_mean_eq:
  assumes "vs \<noteq> []" and "list_all (\<lambda>w. length w = d) vs"
  shows "stack_mean vs = Inr (column_means d vs)"
proof (cases vs)
  case Nil
  then show ?thesis using assms(1) by simp
next
  case (Cons v rest)
  have "length v = d" "list_all (\<lambda>w. length w = length v) rest"
    using assms(2) Cons by (simp_all add: list_all_iff)
  then show ?thesis
    using Cons by (simp add: stack_mean_def column_means_def)
qed

lemma recommend_vector_eq:
  assumes "pv \<noteq> []" and "list_all (\<lambda>w. length w = d) pv" and "list_all (\<lambda>w. length w = d) nv"
  shows "recommend_vector pv nv = Inr (recommend_query d pv nv)"
proof (cases "nv = []")
  case True
  then show ?thesis
    using stack_mean_eq[OF assms(1,2)] by (simp add: recommend_vector_def recommend_query_def)
next
  case False
  have l: "length (column_means d pv) = d" "length (column_means d nv) = d"
    by (simp_all add: column_means_def)
  have twice: "np_binop (+) (column_means d pv) (column_means d pv) =
               Inr (map (\<lambda>p. 2 * p) (column_means d pv))"
    by (simp add: np_binop_def zip_same_conv_map)
  have diff: "np_binop (-) (map (\<lambda>p. 2 * p) (column_means d pv)) (column_means d nv) =
              Inr (map2 (\<lambda>p n. 2 * p - n) (column_means d pv) (column_means d nv))"
    using l by (simp add: np_binop_def zip_map1 split_def)
  show ?thesis
    using False stack_mean_eq[OF assms(1,2)] stack_mean_eq[OF False assms(3)] twice diff
    by (simp add: recommend_vector_def recommend_query_def)
qed

lemma add_must_not_eq: "add_must_not (HasIdCondition pids) f = with_ignored pids f"
  by (simp add: add_must_not_def with_ignored_def split: option.splits)

lemma recommend_prepare_eq:
  assumes pos: "positive \<noteq> []"
    and coll: "coll = (case lookup_from_collection of None \<Rightarrow> self | Some other \<Rightarrow> other)"
    and sname: "sname = (case using of None \<Rightarrow> DEFAULT_VECTOR_NAME | Some u \<Rightarrow> u)"
    and vname: "vname = (case lookup_from_vector_name of None \<Rightarrow> sname | Some l \<Rightarrow> l)"
    and m: "map_of (vectors coll) vname = Some m"
    and known: "known_examples coll m (positive @ negative_list negative)"
    and flt: "caller_filter st query_filter = Some f"
  shows "recommend_prepare self positive negative query_filter using lookup_from_collection
           lookup_from_vector_name st =
         (Inr (QueryTuple sname
                 (recommend_query (mcols m) (example_rows coll m positive)
                    (example_rows coll m (negative_list negative))),
               with_ignored (positive @ negative_list negative) f),
          (case query_filter of
             None \<Rightarrow> st
           | Some ref \<Rightarrow> st(ref := Some (with_ignored (positive @ negative_list negative) f))))"
proof -
  have kp: "known_examples coll m positive" and kn: "known_examples coll m (negative_list negative)"
    using known by (simp_all add: known_examples_def)
  have gp: "gather_vectors coll vname positive = Inr (example_rows coll m positive)"
    by (rule gather_vectors_eq[OF m kp])
  have gn: "gather_vectors coll vname (negative_list negative) =
            Inr (example_rows coll m (negative_list negative))"
    by (rule gather_vectors_eq[OF m kn])
  have ne: "example_rows coll m positive \<noteq> []"
    using pos by (simp add: example_rows_def)
  have rv: "recommend_vector (example_rows coll m positive)
              (example_rows coll m (negative_list negative)) =
            Inr (recommend_query (mcols m) (example_rows coll m positive)
                   (example_rows coll m (negative_list negative)))"
    by (rule recommend_vector_eq[OF ne example_rows_length[OF kp] example_rows_length[OF kn]])
  show ?thesis
  proof (cases query_filter)
    case None
    then have f: "f = \<lparr>must = None, should = None, must_not = None\<rparr>"
      using flt by (simp add: caller_filter_def)
    show ?thesis
      using pos None gp gn rv
      unfolding recommend_prepare_def Let_def coll[symmetric] sname[symmetric] vname[symmetric]
      by (simp add: f with_ignored_def)
  next
    case (Some ref)
    then have f: "st ref = Some f"
      using flt by (simp add: caller_filter_def)
    show ?thesis
      using pos Some gp gn rv f
      unfolding recommend_prepare_def Let_def coll[symmetric] sname[symmetric] vname[symmetric]
      by (simp add: add_must_not_eq)
  qed
qed

text \<open>
  C5. For a call of \<open>recommend\<close> with a non-empty positive list whose example ids are
  known to the lookup collection, the result is that of \<open>search\<close> on the search vector
  name with the query vector equal to the column mean of the positive example rows when
  there is no negative example (\<^verbatim>\<open>None\<close> or the empty list), and to twice that mean minus
  the mean of the negative example rows otherwise, and with the caller's filter (the filter
  without clauses when none is given) augmented by a has-id condition in \<open>must_not\<close> over
  the positive ids followed by the negative ids.
\<close>

theorem recommend_delegates_mean_query:
  assumes pos: "positive \<noteq> []"
    and coll: "coll = (case lookup_from_collection of None \<Rightarrow> self | Some other \<Rightarrow> other)"
    and sname: "sname = (case using of None \<Rightarrow> DEFAULT_VECTOR_NAME | Some u \<Rightarrow> u)"
    and vname: "vname = (case lookup_from_vector_name of None \<Rightarrow> sname | Some l \<Rightarrow> l)"
    and m: "map_of (vectors coll) vname = Some m"
    and known: "known_examples coll m (positive @ negative_list negative)"
    and flt: "caller_filter st query_filter = Some f"
  shows "fst (recommend calc_mask calc_dist self positive negative query_filter limit offset
                wp wv thr using lookup_from_collection lookup_from_vector_name st) =
         search calc_mask calc_dist self
           (QueryTuple sname
              (if negative_list negative = []
               then column_means (mcols m) (example_rows coll m positive)
               else map2 (\<lambda>p n. 2 * p - n)
                      (column_means (mcols m) (example_rows coll m positive))
                      (column_means (mcols m) (example_rows coll m (negative_list negative)))))
           (Some (f\<lparr>must_not :=
                      Some ((case must_not f of None \<Rightarrow> [] | Some conds \<Rightarrow> conds)
                            @ [HasIdCondition (positive @ negative_list negative)])\<rparr>))
           limit offset wp wv thr
       \<and> resolve_vector_name (QueryTuple sname q) = (sname, q)
       \<and> (\<forall>d vs. column_means d vs =
                   map (\<lambda>j. (\<Sum>w\<leftarrow>vs. w ! j) / real (length vs)) [0..<d])
       \<and> (\<forall>pids. example_rows coll m pids =
                   map (\<lambda>pid. mrows m ! the (map_of (ids coll) pid)) pids)
       \<and> negative_list None = [] \<and> (\<forall>ns. negative_list (Some ns) = ns)
       \<and> caller_filter st None = Some \<lparr>must = None, should = None, must_not = None\<rparr>
       \<and> (\<forall>ref. caller_filter st (Some ref) = st ref)"
proof -
  have r: "fst (recommend calc_mask calc_dist self positive negative query_filter limit offset
                wp wv thr using lookup_from_collection lookup_from_vector_name st) =
         search calc_mask calc_dist self
           (QueryTuple sname
              (recommend_query (mcols m) (example_rows coll m positive)
                 (example_rows coll m (negative_list negative))))
           (Some (with_ignored (positive @ negative_list negative) f))
           limit offset wp wv thr"
    by (simp add: recommend_def recommend_prepare_eq[OF assms])
  have e: "(example_rows coll m (negative_list negative) = []) = (negative_list negative = [])"
    by (simp add: example_rows_def)
  show ?thesis
    using r by (simp add: recommend_query_def with_ignored_def e example_rows_def
        negative_list_def column_means_def caller_filter_def)
qed

text \<open>
  Positive examples 1 and 3 with rows \<open>[1, 0]\<close> and \<open>[1, 1]\<close>, negative example 2 with
  row \<open>[0, 1]\<close>: the query is \<open>2 * [1, 1/2] - [0, 1] = [2, 0]\<close>; without a negative
  example and without a filter, the query is the mean \<open>[1, 1/2]\<close>.
\<close>

theorem recommend_delegates_mean_query_witness:
  "fst (recommend accept_all example_dot example_pair [IntId 1, IntId 3] (Some [IntId 2])
          (Some 0) 10 0 (WithPayloadBool True) (WithVectorsBool False) None None None None
          example_store) =
   search accept_all example_dot example_pair (QueryTuple DEFAULT_VECTOR_NAME [2, 0])
     (Some \<lparr>must = None, should = None,
            must_not = Some [OtherCondition ''city'',
                             HasIdCondition [IntId 1, IntId 3, IntId 2]]\<rparr>)
     10 0 (WithPayloadBool True) (WithVectorsBool False) None
   \<and> fst (recommend accept_all example_dot example_pair [IntId 1, IntId 3] None
          None 10 0 (WithPayloadBool True) (WithVectorsBool False) None None None None
          example_store) =
   search accept_all example_dot example_pair (QueryTuple DEFAULT_VECTOR_NAME [1, 1 / 2])
     (Some \<lparr>must = None, should = None,
            must_not = Some [HasIdCondition [IntId 1, IntId 3]]\<rparr>)
     10 0 (WithPayloadBool True) (WithVectorsBool False) None"
proof -
  let ?m = "\<lparr>mcols = 2, mrows = [[1, 0], [0, 1], [1, 1 :: real]]\<rparr>"
  have h1: "[IntId 1, IntId 3] \<noteq> []" by simp
  have h2: "example_pair = (case None of None \<Rightarrow> example_pair | Some other \<Rightarrow> other)" by simp
  have h3: "DEFAULT_VECTOR_NAME = (case None of None \<Rightarrow> DEFAULT_VECTOR_NAME | Some u \<Rightarrow> u)"
    by simp
  have h4: "DEFAULT_VECTOR_NAME = (case None of None \<Rightarrow> DEFAULT_VECTOR_NAME | Some l \<Rightarrow> l)"
    by simp
  have h5: "map_of (vectors example_pair) DEFAULT_VECTOR_NAME = Some ?m"
    by (simp add: example_pair_def)
  have h6: "known_examples example_pair ?m ([IntId 1, IntId 3] @ negative_list (Some [IntId 2]))"
    by (simp add: known_examples_def negative_list_def example_pair_def)
  have h7: "caller_filter example_store (Some 0) =
            Some \<lparr>must = None, should = None, must_not = Some [OtherCondition ''city'']\<rparr>"
    by (simp add: caller_filter_def example_store_def)
  have k6: "known_examples example_pair ?m ([IntId 1, IntId 3] @ negative_list None)"
    by (simp add: known_examples_def negative_list_def example_pair_def)
  have k7: "caller_filter example_store None =
            Some \<lparr>must = None, should = None, must_not = None\<rparr>"
    by (simp add: caller_filter_def)
  note a = recommend_delegates_mean_query[where calc_mask = accept_all and calc_dist = example_dot
      and limit = 10 and offset = 0 and wp = "WithPayloadBool True" and wv = "WithVectorsBool False"
      and thr = None, OF h1 h2 h3 h4 h5 h6 h7, THEN conjunct1]
  note b = recommend_delegates_mean_query[where calc_mask = accept_all and calc_dist = example_dot
      and limit = 10 and offset = 0 and wp = "WithPayloadBool True" and wv = "WithVectorsBool False"
      and thr = None, OF h1 h2 h3 h4 h5 k6 k7, THEN conjunct1]
  have rows: "example_rows example_pair ?m [IntId 1, IntId 3] = [[1, 0], [1, 1]]"
    "example_rows example_pair ?m [IntId 2] = [[0, 1]]"
    by (simp_all add: example_rows_def example_pair_def)
  have means: "column_means 2 [[1, 0], [1, 1]] = [1, 1 / 2]" "column_means 2 [[0, 1]] = [0, 1]"
    by (simp_all add: column_means_def upt_rec)
  show ?thesis
    unfolding a b by (simp add: negative_list_def rows means)
qed

lemma recommend_store:
  assumes "st ref = Some f"
    and "fst (recommend calc_mask calc_dist self positive negative (Some ref) limit offset
                wp wv thr using lookup_from_collection lookup_from_vector_name st) = Inr result"
  shows "snd (recommend calc_mask calc_dist self positive negative (Some ref) limit offset
                wp wv thr using lookup_from_collection lookup_from_vector_name st) =
         st(ref := Some (with_ignored (positive @ negative_list negative) f))"
proof -
  obtain r st' where p: "recommend_prepare self positive negative (Some ref) using
                           lookup_from_collection lookup_from_vector_name st = (r, st')"
    by (cases "recommend_prepare self positive negative (Some ref) using
                 lookup_from_collection lookup_from_vector_name st")
  from assms(2) p obtain qf where r: "r = Inr qf"
    by (cases r) (simp_all add: recommend_def)
  have "st' = st(ref := Some (with_ignored (positive @ negative_list negative) f))"
    using p r assms(1)
    by (simp add: recommend_prepare_def Let_def add_must_not_eq
          split: if_splits sum.splits)
  then show ?thesis using p r by (simp add: recommend_def)
qed

text \<open>
  C10. When \<open>recommend\<close> is given a filter object and returns, the store holds at the
  caller's reference the filter with the has-id condition over the positive and the
  negative ids appended to its \<open>must_not\<close> list (created when it was \<^verbatim>\<open>None\<close>), and
  every other object as before: the caller reads the modified filter after the call.
\<close>

theorem recommend_mutates_caller_filter:
  assumes obj: "st ref = Some f"
    and ret: "fst (recommend calc_mask calc_dist self positive negative (Some ref) limit offset
                wp wv thr using lookup_from_collection lookup_from_vector_name st) = Inr result"
  shows "snd (recommend calc_mask calc_dist self positive negative (Some ref) limit offset
                wp wv thr using lookup_from_collection lookup_from_vector_name st) =
         st(ref := Some (f\<lparr>must_not :=
                      Some ((case must_not f of None \<Rightarrow> [] | Some conds \<Rightarrow> conds)
                            @ [HasIdCondition (positive @ negative_list negative)])\<rparr>))
       \<and> negative_list None = [] \<and> (\<forall>ns. negative_list (Some ns) = ns)"
  using recommend_store[OF obj ret] by (simp add: with_ignored_def negative_list_def)

text \<open>
  The call returns three points, and the caller's filter has one more \<open>must_not\<close>
  condition: appended to the list of the first object, in a new list for the second.
\<close>

theorem recommend_mutates_caller_filter_witness:
  "fst (recommend accept_all example_dot example_pair [IntId 1, IntId 3] (Some [IntId 2])
          (Some 0) 10 0 (WithPayloadBool False) (WithVectorsBool False) None None None None
          example_store) =
     Inr [\<lparr>sp_id = IntId 3, sp_score = 2, sp_version = 0, sp_payload = None, sp_vector = None\<rparr>,
          \<lparr>sp_id = IntId 1, sp_score = 2, sp_version = 0, sp_payload = None, sp_vector = None\<rparr>,
          \<lparr>sp_id = IntId 2, sp_score = 0, sp_version = 0, sp_payload = None, sp_vector = None\<rparr>]
   \<and> snd (recommend accept_all example_dot example_pair [IntId 1, IntId 3] (Some [IntId 2])
          (Some 0) 10 0 (WithPayloadBool False) (WithVectorsBool False) None None None None
          example_store) 0 =
     Some \<lparr>must = None, should = None,
           must_not = Some [OtherCondition ''city'',
                            HasIdCondition [IntId 1, IntId 3, IntId 2]]\<rparr>
   \<and> snd (recommend accept_all example_dot example_pair [IntId 1, IntId 3] (Some [IntId 2])
          (Some 2) 10 0 (WithPayloadBool False) (WithVectorsBool False) None None None None
          example_store) 2 =
     Some \<lparr>must = Some [OtherCondition ''city''], should = None,
           must_not = Some [HasIdCondition [IntId 1, IntId 3, IntId 2]]\<rparr>"
proof -
  let ?m = "\<lparr>mcols = 2, mrows = [[1, 0], [0, 1], [1, 1 :: real]]\<rparr>"
  let ?hits = "[\<lparr>sp_id = IntId 3, sp_score = 2, sp_version = 0, sp_payload = None, sp_vector = None\<rparr>,
          \<lparr>sp_id = IntId 1, sp_score = 2, sp_version = 0, sp_payload = None, sp_vector = None\<rparr>,
          \<lparr>sp_id = IntId 2, sp_score = 0, sp_version = 0, sp_payload = None, sp_vector = None\<rparr>]"
  have h1: "[IntId 1, IntId 3] \<noteq> []" by simp
  have h2: "example_pair = (case None of None \<Rightarrow> example_pair | Some other \<Rightarrow> other)" by simp
  have h3: "DEFAULT_VECTOR_NAME = (case None of None \<Rightarrow> DEFAULT_VECTOR_NAME | Some u \<Rightarrow> u)"
    by simp
  have h4: "DEFAULT_VECTOR_NAME = (case None of None \<Rightarrow> DEFAULT_VECTOR_NAME | Some l \<Rightarrow> l)"
    by simp
  have h5: "map_of (vectors example_pair) DEFAULT_VECTOR_NAME = Some ?m"
    by (simp add: example_pair_def)
  have h6: "known_examples example_pair ?m ([IntId 1, IntId 3] @ negative_list (Some [IntId 2]))"
    by (simp add: known_examples_def negative_list_def example_pair_def)
  have o0: "example_store 0 =
            Some \<lparr>must = None, should = None, must_not = Some [OtherCondition ''city'']\<rparr>"
    by (simp add: example_store_def)
  have o1: "example_store 2 =
            Some \<lparr>must = Some [OtherCondition ''city''], should = None, must_not = None\<rparr>"
    by (simp add: example_store_def)
  have rows: "example_rows example_pair ?m [IntId 1, IntId 3] = [[1, 0], [1, 1]]"
    "example_rows example_pair ?m [IntId 2] = [[0, 1]]"
    by (simp_all add: example_rows_def example_pair_def)
  have means: "column_means 2 [[1, 0], [1, 1]] = [1, 1 / 2]" "column_means 2 [[0, 1]] = [0, 1]"
    by (simp_all add: column_means_def upt_rec)
  have q: "recommend_query 2 [[1, 0], [1, 1]] [[0, 1]] = [2, 0]"
    by (simp add: recommend_query_def means)
  have order: "search_order BIGGER_IS_BETTER [2, 0, 2 :: real] = [2, 0, 1]"
    by (simp add: search_order_def argsort_def upt_rec)
  have hits: "search accept_all example_dot example_pair (QueryTuple DEFAULT_VECTOR_NAME [2, 0])
                flt 10 0 (WithPayloadBool False) (WithVectorsBool False) None = Inr ?hits" for flt
    by (simp add: search_def get_vector_params_def example_dot_def combine_mask_def np_binop_def
          accept_all_def order index_list_def crosses_threshold_def
          get_payload_def get_vectors_def slice_from_def slice_start_def example_pair_def)
  have c0: "caller_filter example_store (Some 0) =
            Some \<lparr>must = None, should = None, must_not = Some [OtherCondition ''city'']\<rparr>"
    by (simp add: caller_filter_def example_store_def)
  have c1: "caller_filter example_store (Some 2) =
            Some \<lparr>must = Some [OtherCondition ''city''], should = None, must_not = None\<rparr>"
    by (simp add: caller_filter_def example_store_def)
  have r0: "fst (recommend accept_all example_dot example_pair [IntId 1, IntId 3] (Some [IntId 2])
          (Some 0) 10 0 (WithPayloadBool False) (WithVectorsBool False) None None None None
          example_store) = Inr ?hits"
    by (simp add: recommend_def recommend_prepare_eq[OF h1 h2 h3 h4 h5 h6 c0] negative_list_def
          rows q hits)
  have r1: "fst (recommend accept_all example_dot example_pair [IntId 1, IntId 3] (Some [IntId 2])
          (Some 2) 10 0 (WithPayloadBool False) (WithVectorsBool False) None None None None
          example_store) = Inr ?hits"
    by (simp add: recommend_def recommend_prepare_eq[OF h1 h2 h3 h4 h5 h6 c1] negative_list_def
          rows q hits)
  note a = recommend_mutates_caller_filter[where st = example_store and ref = 0,
      OF o0 r0, THEN conjunct1]
  note b = recommend_mutates_caller_filter[where st = example_store and ref = 2,
      OF o1 r1, THEN conjunct1]
  show ?thesis
    unfolding a b r0 by (simp add: negative_list_def example_store_def)
qed

subsection \<open>The length invariant of the write paths\<close>

lemma rows_grow_refl: "rows_grow c c"
  by (simp add: rows_grow_def split: option.splits)

lemma rows_grow_trans: "rows_grow a b \<Longrightarrow> rows_grow b c \<Longrightarrow> rows_grow a c"
  unfolding rows_grow_def
proof (intro allI conjI impI)
  fix n
  assume ab: "\<forall>n. (map_of (vectors a) n = None \<longrightarrow> map_of (vectors b) n = None)
          \<and> (\<forall>m. map_of (vectors a) n = Some m \<longrightarrow>
                 (\<exists>m'. map_of (vectors b) n = Some m'
                       \<and> length (mrows m) \<le> length (mrows m')))"
    and bc: "\<forall>n. (map_of (vectors b) n = None \<longrightarrow> map_of (vectors c) n = None)
          \<and> (\<forall>m. map_of (vectors b) n = Some m \<longrightarrow>
                 (\<exists>m'. map_of (vectors c) n = Some m'
                       \<and> length (mrows m) \<le> length (mrows m')))"
  {
    assume "map_of (vectors a) n = None"
    then show "map_of (vectors c) n = None"
      using ab[rule_format, of n] bc[rule_format, of n] by simp
  }
  {
    fix m assume "map_of (vectors a) n = Some m"
    then obtain m1 where m1: "map_of (vectors b) n = Some m1" "length (mrows m) \<le> length (mrows m1)"
      using ab by blast
    then obtain m2 where "map_of (vectors c) n = Some m2" "length (mrows m1) \<le> length (mrows m2)"
      using bc by blast
    then show "\<exists>m'. map_of (vectors c) n = Some m' \<and> length (mrows m) \<le> length (mrows m')"
      using m1(2) by auto
  }
qed

lemma rows_grow_back:
  assumes "rows_grow c c'" and "map_of (vectors c') n = Some m'"
  shows "\<exists>m. map_of (vectors c) n = Some m \<and> length (mrows m) \<le> length (mrows m')"
proof (cases "map_of (vectors c) n")
  case None
  then show ?thesis using assms unfolding rows_grow_def by auto
next
  case (Some m)
  then obtain m2 where "map_of (vectors c') n = Some m2" "length (mrows m) \<le> length (mrows m2)"
    using assms(1) unfolding rows_grow_def by blast
  then show ?thesis using Some assms(2) by simp
qed

lemma rows_grow_update:
  assumes "map_of (vectors c) k = Some m" and "length (mrows m) \<le> length (mrows m')"
  shows "rows_grow c (c\<lparr>vectors := AList.update k m' (vectors c)\<rparr>)"
  using assms by (simp add: rows_grow_def update_conv' split: option.splits)

lemma rows_grow_fields:
  "rows_grow c c' \<Longrightarrow> rows_grow (c\<lparr>payload := p\<rparr>) c'"
  "rows_grow c c' \<Longrightarrow> rows_grow c (c'\<lparr>deleted := d\<rparr>)"
  by (simp_all add: rows_grow_def)

lemma same_tables_refl: "same_tables c c"
  by (simp add: same_tables_def)

lemma length_concat_replicate: "length (concat (replicate n xs)) = n * length xs"
  by (induction n) simp_all

lemma np_resize_length: "length (mrows (np_resize m n)) = n"
proof (cases "mrows m = [] \<or> mcols m = 0 \<or> n = 0")
  case True
  then show ?thesis by (auto simp: np_resize_def)
next
  case False
  then have "1 \<le> length (mrows m)" by (cases "mrows m") auto
  then have "n * 1 \<le> n * length (mrows m)" by (rule mult_le_mono2)
  then have "n \<le> n * length (mrows m)" by simp
  then show ?thesis using False by (simp add: np_resize_def length_concat_replicate)
qed

lemma set_row_shape:
  assumes "set_row m idx v = Inr m'"
  shows "length (mrows m') = length (mrows m)" and "idx < length (mrows m')"
  using assms by (auto simp: set_row_def split: if_splits)

lemma update_rows_step:
  assumes "update_rows nvs idx c = (c', e)"
  shows "same_tables c c' \<and> rows_grow c c'"
  using assms
proof (induction nvs arbitrary: c)
  case Nil
  then show ?case by (simp add: same_tables_refl rows_grow_refl)
next
  case (Cons nv nvs)
  show ?case
  proof (cases "map_of (vectors c) (fst nv)")
    case None
    then show ?thesis using Cons.prems by (simp add: dict_get_def same_tables_refl rows_grow_refl)
  next
    case (Some m)
    show ?thesis
    proof (cases "set_row m idx (snd nv)")
      case (Inl err)
      then show ?thesis
        using Cons.prems Some by (simp add: dict_get_def same_tables_refl rows_grow_refl)
    next
      case (Inr m')
      let ?c1 = "c\<lparr>vectors := AList.update (fst nv) m' (vectors c)\<rparr>"
      have run: "update_rows nvs idx ?c1 = (c', e)"
        using Cons.prems Some Inr by (simp add: dict_get_def)
      have g: "rows_grow c ?c1"
        using set_row_shape(1)[OF Inr] by (intro rows_grow_update[OF Some]) simp
      from Cons.IH[OF run] have "same_tables ?c1 c'" "rows_grow ?c1 c'" by simp_all
      then show ?thesis
        using g by (auto simp: same_tables_def intro: rows_grow_trans)
    qed
  qed
qed

lemma add_rows_step:
  assumes "add_rows nvs idx c = (c', e)"
  shows "same_tables c c' \<and> rows_grow c c'"
  using assms
proof (induction nvs arbitrary: c)
  case Nil
  then show ?case by (simp add: same_tables_refl rows_grow_refl)
next
  case (Cons nv nvs)
  show ?case
  proof (cases "map_of (vectors c) (fst nv)")
    case None
    then show ?thesis using Cons.prems by (simp add: dict_get_def same_tables_refl rows_grow_refl)
  next
    case (Some m)
    let ?m = "if length (mrows m) \<le> idx then np_resize m (idx * 2 + 1) else m"
    show ?thesis
    proof (cases "set_row ?m idx (snd nv)")
      case (Inl err)
      then show ?thesis
        using Cons.prems Some by (simp add: dict_get_def same_tables_refl rows_grow_refl)
    next
      case (Inr m')
      let ?c1 = "c\<lparr>vectors := AList.update (fst nv) m' (vectors c)\<rparr>"
      have run: "add_rows nvs idx ?c1 = (c', e)"
        using Cons.prems Some Inr by (simp add: dict_get_def)
      have "length (mrows m) \<le> length (mrows ?m)"
        by (simp add: np_resize_length)
      then have g: "rows_grow c ?c1"
        using set_row_shape(1)[OF Inr] by (intro rows_grow_update[OF Some]) simp
      from Cons.IH[OF run] have "same_tables ?c1 c'" "rows_grow ?c1 c'" by simp_all
      then show ?thesis
        using g by (auto simp: same_tables_def intro: rows_grow_trans)
    qed
  qed
qed

lemma add_rows_written:
  assumes "add_rows nvs idx c = (c', None)" and "n \<in> fst ` set nvs"
  shows "\<exists>m'. map_of (vectors c') n = Some m' \<and> idx < length (mrows m')"
  using assms
proof (induction nvs arbitrary: c)
  case Nil
  then show ?case by simp
next
  case (Cons nv nvs)
  from Cons.prems(1) obtain m where m: "map_of (vectors c) (fst nv) = Some m"
    by (auto simp: dict_get_def split: option.splits)
  let ?m = "if length (mrows m) \<le> idx then np_resize m (idx * 2 + 1) else m"
  from Cons.prems(1) m obtain m' where s: "set_row ?m idx (snd nv) = Inr m'"
    by (cases "set_row ?m idx (snd nv)") (simp_all add: dict_get_def)
  let ?c1 = "c\<lparr>vectors := AList.update (fst nv) m' (vectors c)\<rparr>"
  have run: "add_rows nvs idx ?c1 = (c', None)"
    using Cons.prems(1) m s by (simp add: dict_get_def)
  show ?case
  proof (cases "n \<in> fst ` set nvs")
    case True
    then show ?thesis by (rule Cons.IH[OF run])
  next
    case False
    then have n: "n = fst nv" using Cons.prems(2) by simp
    have here: "map_of (vectors ?c1) n = Some m'" "idx < length (mrows m')"
      using set_row_shape(2)[OF s] n by (simp_all add: update_conv')
    from add_rows_step[OF run] have "rows_grow ?c1 c'" by simp
    then obtain m2 where "map_of (vectors c') n = Some m2" "length (mrows m') \<le> length (mrows m2)"
      using here(1) unfolding rows_grow_def by blast
    then show ?thesis using here(2) by auto
  qed
qed

lemma length_update_new:
  "map_of xs k = None \<Longrightarrow> length (AList.update k v xs) = Suc (length xs)"
  by (induction xs) (auto split: if_splits)

lemma consistent_update_point:
  assumes "consistent c" and "update_point point c = (c', None)"
  shows "consistent c' \<and> rows_grow c c'"
proof -
  from assms(2) obtain idx where i: "map_of (ids c) (ps_id point) = Some idx"
    by (auto simp: update_point_def dict_get_def split: option.splits)
  let ?c1 = "c\<lparr>payload := (payload c)[idx := ps_payload point]\<rparr>"
  from assms(2) i obtain c2 where
    u: "update_rows (point_vectors point) idx ?c1 = (c2, None)"
    and c': "c' = c2\<lparr>deleted := (deleted c2)[idx := False]\<rparr>"
    by (auto simp: update_point_def dict_get_def Let_def split: if_splits prod.splits option.splits)
  from update_rows_step[OF u] have st: "same_tables ?c1 c2" and g: "rows_grow ?c1 c2"
    by simp_all
  have g': "rows_grow c c'"
    using g c' by (simp add: rows_grow_def)
  have rows: "length (payload c') \<le> length (mrows m')" if "map_of (vectors c') n = Some m'" for n m'
  proof -
    from rows_grow_back[OF g' that] obtain m where
      m: "map_of (vectors c) n = Some m" "length (mrows m) \<le> length (mrows m')" by auto
    have "length (payload c) \<le> length (mrows m)"
      using assms(1) m(1) unfolding consistent_def by blast
    moreover have "length (payload c') = length (payload c)"
      using st c' by (simp add: same_tables_def)
    ultimately show ?thesis using m(2) by simp
  qed
  have "consistent c'"
    using assms(1) st c' rows unfolding consistent_def same_tables_def by auto
  then show ?thesis using g' by simp
qed

lemma consistent_add_point:
  assumes "consistent c" and "map_of (ids c) (ps_id point) = None"
    and "add_point point c = (c', None)"
  shows "consistent c' \<and> rows_grow c c'"
proof -
  let ?idx = "length (ids c)"
  let ?c1 = "c\<lparr>ids := AList.update (ps_id point) ?idx (ids c),
                 ids_inv := ids_inv c @ [ps_id point],
                 payload := payload c @ [ps_payload point],
                 deleted := deleted c @ [False]\<rparr>"
  from assms(3) have keys: "same_keys (point_vectors point) (vectors c)"
    and run: "add_rows (point_vectors point) ?idx ?c1 = (c', None)"
    by (auto simp: add_point_def Let_def split: if_splits)
  from add_rows_step[OF run] have st: "same_tables ?c1 c'" and g: "rows_grow ?c1 c'"
    by simp_all
  have g': "rows_grow c c'"
    using g by (simp add: rows_grow_def)
  have len: "length (payload c') = Suc (length (payload c))" "length (ids c') = Suc (length (ids c))"
    "length (ids_inv c') = Suc (length (ids_inv c))" "length (deleted c') = Suc (length (deleted c))"
    using st by (simp_all add: same_tables_def length_update_new[OF assms(2)])
  have rows: "length (payload c') \<le> length (mrows m')" if "map_of (vectors c') n = Some m'" for n m'
  proof -
    have "map_of (vectors c) n \<noteq> None"
      using rows_grow_back[OF g' that] by auto
    then have "n \<in> fst ` set (vectors c)"
      by (auto simp: map_of_eq_None_iff)
    then have "n \<in> fst ` set (point_vectors point)"
      using keys by (simp add: same_keys_def)
    from add_rows_written[OF run this] that have "?idx < length (mrows m')" by simp
    then show ?thesis using len(1) assms(1) by (simp add: consistent_def)
  qed
  have "consistent c'"
    using assms(1) len rows unfolding consistent_def by auto
  then show ?thesis using g' by simp
qed

lemma consistent_upsert_point:
  assumes "consistent c" and "upsert_point is_uuid point c = (c', None)"
  shows "consistent c' \<and> rows_grow c c'"
proof (cases "map_of (ids c) (ps_id point)")
  case None
  then have "add_point point c = (c', None)"
    using assms(2) by (simp add: upsert_point_def split: if_splits)
  from consistent_add_point[OF assms(1) None this] show ?thesis .
next
  case (Some idx)
  then have "update_point point c = (c', None)"
    using assms(2) by (simp add: upsert_point_def split: if_splits)
  from consistent_update_point[OF assms(1) this] show ?thesis .
qed

lemma consistent_upsert_list:
  assumes "consistent c" and "upsert_list is_uuid ps c = (c', None)"
  shows "consistent c' \<and> rows_grow c c'"
  using assms
proof (induction ps arbitrary: c)
  case Nil
  then show ?case by (simp add: rows_grow_refl)
next
  case (Cons p ps)
  from Cons.prems(2) obtain c1 where
    one: "upsert_point is_uuid p c = (c1, None)" and rest: "upsert_list is_uuid ps c1 = (c', None)"
    by (auto split: prod.splits option.splits)
  from consistent_upsert_point[OF Cons.prems(1) one] have a: "consistent c1" "rows_grow c c1"
    by simp_all
  from Cons.IH[OF a(1) rest] a(2) show ?case by (auto intro: rows_grow_trans)
qed

lemma consistent_upsert_batch:
  assumes "consistent c" and "upsert_batch is_uuid payloads vs ips c = (c', None)"
  shows "consistent c' \<and> rows_grow c c'"
  using assms
proof (induction ips arbitrary: c)
  case Nil
  then show ?case by (simp add: rows_grow_refl)
next
  case (Cons ip ips)
  from Cons.prems(2) obtain p c1 where
    one: "upsert_point is_uuid p c = (c1, None)"
    and rest: "upsert_batch is_uuid payloads vs ips c1 = (c', None)"
    by (auto split: prod.splits option.splits sum.splits)
  from consistent_upsert_point[OF Cons.prems(1) one] have a: "consistent c1" "rows_grow c c1"
    by simp_all
  from Cons.IH[OF a(1) rest] a(2) show ?case by (auto intro: rows_grow_trans)
qed

lemma consistent_delete_ids:
  assumes "consistent c" and "delete_ids pids c = (c', None)"
  shows "consistent c' \<and> rows_grow c c'"
  using assms
proof (induction pids arbitrary: c)
  case Nil
  then show ?case by (simp add: rows_grow_refl)
next
  case (Cons pid pids)
  from Cons.prems(2) obtain idx where
    rest: "delete_ids pids (c\<lparr>deleted := (deleted c)[idx := True]\<rparr>) = (c', None)"
    by (auto simp: dict_get_def split: option.splits if_splits)
  have a: "consistent (c\<lparr>deleted := (deleted c)[idx := True]\<rparr>)"
    using Cons.prems(1) by (simp add: consistent_def)
  have b: "rows_grow c (c\<lparr>deleted := (deleted c)[idx := True]\<rparr>)"
    by (simp add: rows_grow_def split: option.splits)
  from Cons.IH[OF a rest] b show ?case by (auto intro: rows_grow_trans)
qed

lemma consistent_apply_operation:
  assumes "consistent c" and "apply_operation is_uuid calc_mask op c = (c', None)"
  shows "consistent c' \<and> rows_grow c c'"
proof (cases op)
  case (Upsert points)
  show ?thesis
  proof (cases points)
    case (PointsList ps)
    then show ?thesis
      using assms Upsert consistent_upsert_list[of c is_uuid ps c'] by (simp add: upsert_def)
  next
    case (PointsBatch b)
    then show ?thesis
      using assms Upsert
        consistent_upsert_batch[of c is_uuid "batch_payloads b" _ "enumerate 0 (batch_ids b)" c']
      by (simp add: upsert_def)
  qed
next
  case (Delete sel)
  from assms(2) Delete obtain pids where "delete_ids pids c = (c', None)"
    by (auto simp: delete_def split: sum.splits)
  from consistent_delete_ids[OF assms(1) this] show ?thesis .
qed

lemma consistent_run:
  assumes "consistent c" and "run_successful is_uuid calc_mask ops c = Some c'"
  shows "consistent c' \<and> rows_grow c c'"
  using assms
proof (induction ops arbitrary: c)
  case Nil
  then show ?case by (simp add: rows_grow_refl)
next
  case (Cons op ops)
  from Cons.prems(2) obtain c1 where
    one: "apply_operation is_uuid calc_mask op c = (c1, None)"
    and rest: "run_successful is_uuid calc_mask ops c1 = Some c'"
    by (auto split: prod.splits option.splits)
  from consistent_apply_operation[OF Cons.prems(1) one] have a: "consistent c1" "rows_grow c c1"
    by simp_all
  from Cons.IH[OF a(1) rest] a(2) show ?case by (auto intro: rows_grow_trans)
qed

lemma init_names:
  "map_of (fold (\<lambda>np acc. AList.update (fst np) (g np) acc) xs acc) n \<noteq> None
   \<longleftrightarrow> n \<in> fst ` set xs \<or> map_of acc n \<noteq> None"
  by (induction xs arbitrary: acc) (auto simp: update_conv')

lemma consistent_init: "consistent (init_collection cfg)"
  by (simp add: consistent_def init_collection_def)

lemma init_configured:
  assumes "np \<in> set (config_items cfg)"
  shows "map_of (vectors (init_collection cfg)) (fst np) \<noteq> None"
  using assms init_names[of "\<lambda>np. \<lparr>mcols = vp_size (snd np), mrows = []\<rparr>" "config_items cfg" "[]" "fst np"]
  by (auto simp: init_collection_def)

text \<open>
  C6. After any sequence of upserts and deletes that all return, starting from the fresh
  collection of a configuration, the payload list, the tombstones and the inverse id list
  have the same length, and every configured vector name has a stored matrix with at least
  that many rows.
\<close>

theorem lengths_agree_after_operations:
  assumes "run_successful is_uuid calc_mask ops (init_collection cfg) = Some c"
  shows "length (payload c) = length (deleted c)
       \<and> length (deleted c) = length (ids_inv c)
       \<and> rows_cover cfg c
       \<and> (\<forall>cfg' c'. rows_cover cfg' c' =
            list_all (\<lambda>np. case map_of (vectors c') (fst np) of
                              None \<Rightarrow> False
                            | Some m \<Rightarrow> length (payload c') \<le> length (mrows m))
              (config_items cfg'))
       \<and> (\<forall>p. config_items (SingleVectorParams p) = [(DEFAULT_VECTOR_NAME, p)])
       \<and> (\<forall>d. config_items (NamedVectorParams d) = d)"
proof -
  from consistent_run[OF consistent_init assms]
  have c: "consistent c" and g: "rows_grow (init_collection cfg) c" by simp_all
  have cover: "rows_cover cfg c"
    unfolding rows_cover_def list_all_iff
  proof
    fix np assume "np \<in> set (config_items cfg)"
    from init_configured[OF this] obtain m0 where
      "map_of (vectors (init_collection cfg)) (fst np) = Some m0" by auto
    with g obtain m where m: "map_of (vectors c) (fst np) = Some m"
      unfolding rows_grow_def by blast
    with c have "length (payload c) \<le> length (mrows m)" by (simp add: consistent_def)
    with m show "case map_of (vectors c) (fst np) of
                   None \<Rightarrow> False | Some m \<Rightarrow> length (payload c) \<le> length (mrows m)"
      by simp
  qed
  show ?thesis
    using c cover by (simp add: consistent_def rows_cover_def config_items_def)
qed

lemma example_run_reached:
  "run_successful canonical_length accept_all example_run (init_collection example_config) =
     Some example_after_run"
  by (simp add: eval_defs example_run_def example_tagged_def example_second_def
        example_after_run_def numeral_3_eq_3)

text \<open>
  An upsert, a delete and a second upsert: two slots, and a matrix that was resized to
  three rows.
\<close>

theorem lengths_agree_after_operations_witness:
  "run_successful canonical_length accept_all example_run (init_collection example_config) =
     Some example_after_run
   \<and> length (payload example_after_run) = 2 \<and> length (deleted example_after_run) = 2
   \<and> length (ids_inv example_after_run) = 2
   \<and> rows_cover example_config example_after_run"
proof -
  note res = lengths_agree_after_operations[OF example_run_reached]
  have l: "length (payload example_after_run) = 2" by (simp add: example_after_run_def)
  from res[THEN conjunct1] res[THEN conjunct2, THEN conjunct1]
    res[THEN conjunct2, THEN conjunct2, THEN conjunct1] l example_run_reached
  show ?thesis by simp
qed

subsection \<open>Index reuse on upsert\<close>

lemma set_row_value:
  assumes "set_row m idx v = Inr m'"
  shows "idx < length (mrows m')" and "mrows m' ! idx = row_value (mcols m') v"
proof -
  have i: "idx < length (mrows m)"
    using assms by (simp add: set_row_def split: if_splits)
  show "idx < length (mrows m')"
    using assms by (rule set_row_shape(2))
  show "mrows m' ! idx = row_value (mcols m') v"
  proof (cases "length v = mcols m")
    case True
    then have "m' = m\<lparr>mrows := (mrows m)[idx := v]\<rparr>"
      using assms i by (simp add: set_row_def)
    then show ?thesis using True i by (simp add: row_value_def)
  next
    case False
    then have "m' = m\<lparr>mrows := (mrows m)[idx := replicate (mcols m) (hd v)]\<rparr>"
      using assms i by (simp add: set_row_def split: if_splits)
    then show ?thesis using False i by (simp add: row_value_def)
  qed
qed

lemma update_rows_untouched:
  assumes "update_rows nvs idx c = (c', e)" and "n \<notin> fst ` set nvs"
  shows "map_of (vectors c') n = map_of (vectors c) n"
  using assms
proof (induction nvs arbitrary: c)
  case Nil
  then show ?case by simp
next
  case (Cons nv nvs)
  have n: "n \<noteq> fst nv" "n \<notin> fst ` set nvs" using Cons.prems(2) by auto
  show ?case
  proof (cases "map_of (vectors c) (fst nv)")
    case None
    then show ?thesis using Cons.prems(1) by (simp add: dict_get_def)
  next
    case (Some m)
    show ?thesis
    proof (cases "set_row m idx (snd nv)")
      case (Inl err)
      then show ?thesis using Cons.prems(1) Some by (simp add: dict_get_def)
    next
      case (Inr m')
      let ?c1 = "c\<lparr>vectors := AList.update (fst nv) m' (vectors c)\<rparr>"
      have run: "update_rows nvs idx ?c1 = (c', e)"
        using Cons.prems(1) Some Inr by (simp add: dict_get_def)
      from Cons.IH[OF run n(2)] n(1) show ?thesis by (simp add: update_conv')
    qed
  qed
qed


lemma add_rows_untouched:
  assumes "add_rows nvs idx c = (c', e)" and "n \<notin> fst ` set nvs"
  shows "map_of (vectors c') n = map_of (vectors c) n"
  using assms
proof (induction nvs arbitrary: c)
  case Nil
  then show ?case by simp
next
  case (Cons nv nvs)
  have n: "n \<noteq> fst nv" "n \<notin> fst ` set nvs" using Cons.prems(2) by auto
  show ?case
  proof (cases "map_of (vectors c) (fst nv)")
    case None
    then show ?thesis using Cons.prems(1) by (simp add: dict_get_def)
  next
    case (Some m)
    let ?m = "if length (mrows m) \<le> idx then np_resize m (idx * 2 + 1) else m"
    show ?thesis
    proof (cases "set_row ?m idx (snd nv)")
      case (Inl err)
      then show ?thesis using Cons.prems(1) Some by (simp add: dict_get_def)
    next
      case (Inr m')
      let ?c1 = "c\<lparr>vectors := AList.update (fst nv) m' (vectors c)\<rparr>"
      have run: "add_rows nvs idx ?c1 = (c', e)"
        using Cons.prems(1) Some Inr by (simp add: dict_get_def)
      from Cons.IH[OF run n(2)] n(1) show ?thesis by (simp add: update_conv')
    qed
  qed
qed


lemma rows_written_Cons:
  "rows_written c idx (nv # nvs) =
     ((case map_of (vectors c) (fst nv) of
         None \<Rightarrow> False
       | Some m \<Rightarrow> idx < length (mrows m) \<and> mrows m ! idx = row_value (mcols m) (snd nv))
      \<and> rows_written c idx nvs)"
  by (simp add: rows_written_def)


lemma update_rows_written:
  assumes "update_rows nvs idx c = (c', None)" and "distinct (map fst nvs)"
  shows "rows_written c' idx nvs"
  using assms
proof (induction nvs arbitrary: c)
  case Nil
  then show ?case by (simp add: rows_written_def)
next
  case (Cons nv nvs)
  from Cons.prems(1) obtain m where m: "map_of (vectors c) (fst nv) = Some m"
    by (auto simp: dict_get_def split: option.splits)
  from Cons.prems(1) m obtain m' where s: "set_row m idx (snd nv) = Inr m'"
    by (cases "set_row m idx (snd nv)") (simp_all add: dict_get_def)
  let ?c1 = "c\<lparr>vectors := AList.update (fst nv) m' (vectors c)\<rparr>"
  have run: "update_rows nvs idx ?c1 = (c', None)"
    using Cons.prems(1) m s by (simp add: dict_get_def)
  have d: "distinct (map fst nvs)" "fst nv \<notin> fst ` set nvs"
    using Cons.prems(2) by simp_all
  have "map_of (vectors c') (fst nv) = Some m'"
    using update_rows_untouched[OF run d(2)] by (simp add: update_conv')
  then show ?case
    using Cons.IH[OF run d(1)] set_row_value[OF s] by (simp add: rows_written_Cons)
qed


lemma add_rows_values:
  assumes "add_rows nvs idx c = (c', None)" and "distinct (map fst nvs)"
  shows "rows_written c' idx nvs"
  using assms
proof (induction nvs arbitrary: c)
  case Nil
  then show ?case by (simp add: rows_written_def)
next
  case (Cons nv nvs)
  from Cons.prems(1) obtain m where m: "map_of (vectors c) (fst nv) = Some m"
    by (auto simp: dict_get_def split: option.splits)
  let ?m = "if length (mrows m) \<le> idx then np_resize m (idx * 2 + 1) else m"
  from Cons.prems(1) m obtain m' where s: "set_row ?m idx (snd nv) = Inr m'"
    by (cases "set_row ?m idx (snd nv)") (simp_all add: dict_get_def)
  let ?c1 = "c\<lparr>vectors := AList.update (fst nv) m' (vectors c)\<rparr>"
  have run: "add_rows nvs idx ?c1 = (c', None)"
    using Cons.prems(1) m s by (simp add: dict_get_def)
  have d: "distinct (map fst nvs)" "fst nv \<notin> fst ` set nvs"
    using Cons.prems(2) by simp_all
  have "map_of (vectors c') (fst nv) = Some m'"
    using add_rows_untouched[OF run d(2)] by (simp add: update_conv')
  then show ?case
    using Cons.IH[OF run d(1)] set_row_value[OF s] by (simp add: rows_written_Cons)
qed


lemma update_point_effect:
  assumes "update_point point c = (c', None)" and "map_of (ids c) (ps_id point) = Some idx"
    and "distinct (map fst (point_vectors point))"
  shows "ids c' = ids c \<and> ids_inv c' = ids_inv c
       \<and> idx < length (payload c) \<and> idx < length (deleted c)
       \<and> payload c' = (payload c)[idx := ps_payload point]
       \<and> deleted c' = (deleted c)[idx := False]
       \<and> rows_written c' idx (point_vectors point)"
proof -
  let ?c1 = "c\<lparr>payload := (payload c)[idx := ps_payload point]\<rparr>"
  from assms(1,2) obtain c2 where
    i: "idx < length (payload c)"
    and u: "update_rows (point_vectors point) idx ?c1 = (c2, None)"
    and d: "idx < length (deleted c2)"
    and c': "c' = c2\<lparr>deleted := (deleted c2)[idx := False]\<rparr>"
    by (auto simp: update_point_def dict_get_def Let_def split: if_splits prod.splits option.splits)
  from update_rows_step[OF u] have st: "same_tables ?c1 c2" by simp
  have w: "rows_written c' idx (point_vectors point)"
    using update_rows_written[OF u assms(3)] c' by (simp add: rows_written_def)
  show ?thesis
    using st i d c' w by (simp add: same_tables_def)
qed


lemma add_point_effect:
  assumes "add_point point c = (c', None)" and "map_of (ids c) (ps_id point) = None"
    and "distinct (map fst (point_vectors point))"
  shows "map_of (ids c') (ps_id point) = Some (length (ids c))
       \<and> length (ids c') = length (ids c) + 1
       \<and> ids_inv c' = ids_inv c @ [ps_id point]
       \<and> payload c' = payload c @ [ps_payload point]
       \<and> deleted c' = deleted c @ [False]
       \<and> rows_written c' (length (ids c)) (point_vectors point)"
proof -
  let ?idx = "length (ids c)"
  let ?c1 = "c\<lparr>ids := AList.update (ps_id point) ?idx (ids c),
                 ids_inv := ids_inv c @ [ps_id point],
                 payload := payload c @ [ps_payload point],
                 deleted := deleted c @ [False]\<rparr>"
  from assms(1) have run: "add_rows (point_vectors point) ?idx ?c1 = (c', None)"
    by (auto simp: add_point_def Let_def split: if_splits)
  from add_rows_step[OF run] have st: "same_tables ?c1 c'" by simp
  show ?thesis
    using st add_rows_values[OF run assms(3)]
    by (simp add: same_tables_def update_conv' length_update_new[OF assms(2)])
qed


text \<open>
  C7. An upsert of a point that returns, for a point whose vector names are pairwise
  different: when the id is in the id table, whatever its tombstone, the id table and the
  inverse id list are unchanged, so the point keeps its index and the lengths do not
  change; the payload at the index is the new payload, the tombstone at the index is
  cleared, and the rows at the index hold the new vectors. When the id is not in the id
  table, the id table grows by one entry and binds the id to the index that is the new
  size minus one; the id, the payload and a cleared tombstone are appended, and the rows at
  that index hold the new vectors.
\<close>

theorem upsert_reuses_index:
  assumes ok: "upsert_point is_uuid point c = (c', None)"
    and names: "distinct (map fst (point_vectors point))"
  shows "(case map_of (ids c) (ps_id point) of
            Some idx \<Rightarrow>
              ids c' = ids c \<and> ids_inv c' = ids_inv c
              \<and> length (payload c') = length (payload c)
              \<and> length (deleted c') = length (deleted c)
              \<and> idx < length (payload c) \<and> idx < length (deleted c)
              \<and> payload c' = (payload c)[idx := ps_payload point]
              \<and> deleted c' = (deleted c)[idx := False]
              \<and> rows_written c' idx (point_vectors point)
          | None \<Rightarrow>
              map_of (ids c') (ps_id point) = Some (length (ids c') - 1)
              \<and> length (ids c') = length (ids c) + 1
              \<and> ids_inv c' = ids_inv c @ [ps_id point]
              \<and> payload c' = payload c @ [ps_payload point]
              \<and> deleted c' = deleted c @ [False]
              \<and> rows_written c' (length (ids c)) (point_vectors point))"
proof (cases "map_of (ids c) (ps_id point)")
  case None
  then have "add_point point c = (c', None)"
    using ok by (simp add: upsert_point_def split: if_splits)
  from add_point_effect[OF this None names] None show ?thesis by simp
next
  case (Some idx)
  then have "update_point point c = (c', None)"
    using ok by (simp add: upsert_point_def split: if_splits)
  from update_point_effect[OF this Some names] Some show ?thesis by simp
qed

text \<open>
  Point 1, tombstoned at index 0 of the state reached above, is upserted again and keeps
  index 0; point 2, unknown to the collection that holds point 1 only, gets index 1.
\<close>

theorem upsert_reuses_index_witness:
  "upsert_point canonical_length example_again example_after_run =
     (example_after_run
        \<lparr>vectors := [(DEFAULT_VECTOR_NAME, \<lparr>mcols = 2, mrows = [[1, 1], [0, 1], [1, 0]]\<rparr>)],
         payload := [Some [(''k'', JNum 3)], None], deleted := [False, False]\<rparr>, None)
   \<and> rows_written
        (example_after_run
           \<lparr>vectors := [(DEFAULT_VECTOR_NAME, \<lparr>mcols = 2, mrows = [[1, 1], [0, 1], [1, 0]]\<rparr>)],
            payload := [Some [(''k'', JNum 3)], None], deleted := [False, False]\<rparr>)
        0 [(DEFAULT_VECTOR_NAME, [1, 1])]
   \<and> upsert_point canonical_length example_second example_stored =
     (example_stored
        \<lparr>vectors := [(DEFAULT_VECTOR_NAME, \<lparr>mcols = 2, mrows = [[1, 0], [0, 1], [1, 0]]\<rparr>)],
         payload := [Some [(''k'', JNum 1)], None], deleted := [False, False],
         ids := [(IntId 1, 0), (IntId 2, 1)], ids_inv := [IntId 1, IntId 2]\<rparr>, None)
   \<and> map_of [(IntId 1, 0 :: nat), (IntId 2, 1)] (IntId 2) = Some (2 - 1)"
proof -
  let ?a = "example_after_run
        \<lparr>vectors := [(DEFAULT_VECTOR_NAME, \<lparr>mcols = 2, mrows = [[1, 1], [0, 1], [1, 0]]\<rparr>)],
         payload := [Some [(''k'', JNum 3)], None], deleted := [False, False]\<rparr>"
  let ?b = "example_stored
        \<lparr>vectors := [(DEFAULT_VECTOR_NAME, \<lparr>mcols = 2, mrows = [[1, 0], [0, 1], [1, 0]]\<rparr>)],
         payload := [Some [(''k'', JNum 1)], None], deleted := [False, False],
         ids := [(IntId 1, 0), (IntId 2, 1)], ids_inv := [IntId 1, IntId 2]\<rparr>"
  have known: "upsert_point canonical_length example_again example_after_run = (?a, None)"
    by (simp add: eval_defs example_again_def example_after_run_def)
  have new: "upsert_point canonical_length example_second example_stored = (?b, None)"
    by (simp add: eval_defs example_second_def example_stored_def numeral_3_eq_3)
  have d1: "distinct (map fst (point_vectors example_again))"
    by (simp add: point_vectors_def example_again_def)
  have d2: "distinct (map fst (point_vectors example_second))"
    by (simp add: point_vectors_def example_second_def)
  have k: "map_of (ids example_after_run) (ps_id example_again) = Some 0"
    by (simp add: example_after_run_def example_again_def)
  have n: "map_of (ids example_stored) (ps_id example_second) = None"
    by (simp add: example_stored_def example_second_def)
  note r1 = upsert_reuses_index[OF known d1, unfolded k option.case]
  note r2 = upsert_reuses_index[OF new d2, unfolded n option.case]
  note w0 = r1[THEN conjunct2, THEN conjunct2, THEN conjunct2, THEN conjunct2, THEN conjunct2,
      THEN conjunct2, THEN conjunct2, THEN conjunct2]
  have w: "rows_written ?a 0 [(DEFAULT_VECTOR_NAME, [1, 1])]"
    using w0 by (simp add: point_vectors_def example_again_def)
  note i0 = r2[THEN conjunct1]
  have i': "map_of [(IntId 1, 0 :: nat), (IntId 2, 1)] (IntId 2) = Some (2 - 1)"
    using i0 by (simp add: example_second_def)
  show ?thesis
    by (intro conjI) (rule known w new i')+
qed

end
